theory Spec2Isabelle
  imports Complex_Main "HOL-Library.Char_ord" "HOL-Library.List_Lexorder" "HOL-Library.Multiset"
    "HOL-Library.Product_Lexorder"
begin

section \<open>Data model (orchestration/models.py)\<close>

text \<open>
  Timestamps are readings of the wall clock (\<^verbatim>\<open>datetime.now\<close>), taken as integers
  (microseconds); every call of \<^verbatim>\<open>datetime.now\<close> in the source is one reading, passed to
  the model as an argument. Durations are differences of two readings.
\<close>

type_synonym time = int

datatype TaskStatus = PENDING | READY | RUNNING | COMPLETED | FAILED | SKIPPED | RETRYING

datatype ExecutionStrategy = SEQUENTIAL | PARALLEL | CONDITIONAL | DAG

datatype AgentCapability =
  GENERAL | CODE_ANALYSIS | CODE_GENERATION | TESTING | DEBUGGING | DOCUMENTATION
  | DATA_PROCESSING | FILE_OPERATIONS | API_INTEGRATION | RESEARCH

text \<open>Values of \<^verbatim>\<open>parameters: dict[str, Any]\<close>: the JSON-shaped Python values, and
  \<open>PyObject\<close> for an object \<^verbatim>\<open>json.dumps\<close> cannot serialise (it carries the type's name).
  A \<^verbatim>\<open>dict\<close> is the list of its items in insertion order.\<close>

datatype pyvalue =
  PyNone | PyBool bool | PyInt int | PyStr string
  | PyList "pyvalue list" | PyDict "(string \<times> pyvalue) list" | PyObject string

record RetryConfig =
  max_retries :: nat
  backoff_multiplier :: real
  initial_delay :: real
  max_delay :: real

text \<open>\<open>tid\<close> is the field \<^verbatim>\<open>id\<close>. The fields \<^verbatim>\<open>task_type\<close>, \<^verbatim>\<open>timeout_seconds\<close> and
  \<^verbatim>\<open>expected_output_type\<close> are read by none of the functions below.\<close>

record TaskDefinition =
  tid :: string
  description :: string
  depends_on :: "string list"
  required_capabilities :: "AgentCapability list"
  required_skills :: "string list"
  priority :: int
  retry_config :: RetryConfig
  parameters :: "(string \<times> pyvalue) list"
  agent_type :: "string option"
  condition :: "string option"

text \<open>\<open>result_output\<close> is the field \<^verbatim>\<open>output\<close> (\<^verbatim>\<open>Any\<close> in the source): the agent
  substrate returns text, and \<open>None\<close> is Python's \<^verbatim>\<open>None\<close>.\<close>

record TaskResult =
  task_id :: string
  status :: TaskStatus
  result_output :: "string option"
  error :: "string option"
  started_at :: "time option"
  completed_at :: "time option"
  duration_seconds :: "int option"
  retry_count :: nat
  agent_used :: "string option"

record WorkflowDefinition =
  wid :: string
  tasks :: "TaskDefinition list"
  execution_strategy :: ExecutionStrategy
  max_parallel_tasks :: nat
  continue_on_failure :: bool

datatype WorkflowStatus = WPending | WRunning | WCompleted | WFailed | WPartial

record WorkflowState =
  workflow_id :: string
  wf_status :: WorkflowStatus
  task_results :: "string \<rightharpoonup> TaskResult"
  current_tasks :: "string list"
  pending_tasks :: "string list"
  completed_tasks :: "string list"
  failed_tasks :: "string list"
  wf_started_at :: "time option"
  wf_completed_at :: "time option"
  wf_error :: "string option"

record AgentRouting =
  ar_agent_type :: string
  capabilities :: "AgentCapability list"
  ar_priority :: int
  max_concurrent_tasks :: int

text \<open>\<^verbatim>\<open>TaskResult(task_id=..., status=...)\<close> with every other field at its default.\<close>

definition TaskResult_init :: "string \<Rightarrow> TaskStatus \<Rightarrow> TaskResult" where
  "TaskResult_init i s =
     \<lparr>task_id = i, status = s, result_output = None, error = None, started_at = None,
      completed_at = None, duration_seconds = None, retry_count = 0, agent_used = None\<rparr>"

text \<open>\<^verbatim>\<open>TaskDefinition(id=i, description=d)\<close> and \<^verbatim>\<open>WorkflowDefinition(id=i, name=..., tasks=ts)\<close>
  with every other field at its default.\<close>

definition TaskDefinition_init :: "string \<Rightarrow> string \<Rightarrow> TaskDefinition" where
  "TaskDefinition_init i d =
     \<lparr>tid = i, description = d, depends_on = [], required_capabilities = [GENERAL],
      required_skills = [], priority = 5,
      retry_config =
        \<lparr>max_retries = 3, backoff_multiplier = 2, initial_delay = 1, max_delay = 60\<rparr>,
      parameters = [], agent_type = None, condition = None\<rparr>"

definition WorkflowDefinition_init :: "string \<Rightarrow> TaskDefinition list \<Rightarrow> WorkflowDefinition" where
  "WorkflowDefinition_init i ts =
     \<lparr>wid = i, tasks = ts, execution_strategy = DAG, max_parallel_tasks = 5,
      continue_on_failure = False\<rparr>"

definition get_task_status :: "WorkflowState \<Rightarrow> string \<Rightarrow> TaskStatus" where
  "get_task_status st i =
     (case task_results st i of
        Some r \<Rightarrow> status r
      | None \<Rightarrow>
          if i \<in> set (current_tasks st) then RUNNING
          else if i \<in> set (pending_tasks st) then PENDING
          else if i \<in> set (completed_tasks st) then COMPLETED
          else if i \<in> set (failed_tasks st) then FAILED
          else PENDING)"

definition is_task_ready :: "WorkflowState \<Rightarrow> TaskDefinition \<Rightarrow> bool" where
  "is_task_ready st t = list_all (\<lambda>d. get_task_status st d = COMPLETED) (depends_on t)"

section \<open>State store (orchestration/state.py)\<close>

text \<open>\<^verbatim>\<open>StateManager.__init__\<close>: every task id pending, in declaration order.\<close>

definition StateManager_init :: "WorkflowDefinition \<Rightarrow> WorkflowState" where
  "StateManager_init wfl =
     \<lparr>workflow_id = wid wfl, wf_status = WPending, task_results = Map.empty,
      current_tasks = [], pending_tasks = map tid (tasks wfl), completed_tasks = [],
      failed_tasks = [], wf_started_at = None, wf_completed_at = None, wf_error = None\<rparr>"

definition start_workflow :: "time \<Rightarrow> WorkflowState \<Rightarrow> WorkflowState" where
  "start_workflow now st = st\<lparr>wf_status := WRunning, wf_started_at := Some now\<rparr>"

definition complete_workflow :: "time \<Rightarrow> WorkflowState \<Rightarrow> WorkflowState" where
  "complete_workflow now st = st\<lparr>wf_status := WCompleted, wf_completed_at := Some now\<rparr>"

definition fail_workflow :: "time \<Rightarrow> string \<Rightarrow> WorkflowState \<Rightarrow> WorkflowState" where
  "fail_workflow now err st =
     st\<lparr>wf_status := WFailed, wf_error := Some err, wf_completed_at := Some now\<rparr>"

text \<open>\<^verbatim>\<open>xs.remove(x)\<close> deletes the first occurrence (\<open>remove1\<close>); \<^verbatim>\<open>xs.append(x)\<close> adds at the
  end.\<close>

definition start_task :: "time \<Rightarrow> string \<Rightarrow> WorkflowState \<Rightarrow> WorkflowState" where
  "start_task now i st =
     (let pend = (if i \<in> set (pending_tasks st) then remove1 i (pending_tasks st)
                  else pending_tasks st);
          cur = (if i \<notin> set (current_tasks st) then current_tasks st @ [i]
                 else current_tasks st);
          r = (case task_results st i of
                 None \<Rightarrow> (TaskResult_init i RUNNING)\<lparr>started_at := Some now\<rparr>
               | Some r0 \<Rightarrow> r0\<lparr>status := RUNNING, started_at := Some now\<rparr>)
      in st\<lparr>pending_tasks := pend, current_tasks := cur,
             task_results := (task_results st)(i \<mapsto> r)\<rparr>)"

definition stamp_duration :: "time \<Rightarrow> TaskResult \<Rightarrow> TaskResult" where
  "stamp_duration now r =
     (case started_at r of
        None \<Rightarrow> r\<lparr>completed_at := Some now\<rparr>
      | Some s \<Rightarrow> r\<lparr>completed_at := Some now, duration_seconds := Some (now - s)\<rparr>)"

definition complete_task ::
  "time \<Rightarrow> string \<Rightarrow> string option \<Rightarrow> string option \<Rightarrow> WorkflowState \<Rightarrow> WorkflowState" where
  "complete_task now i out agent st =
     (let cur = (if i \<in> set (current_tasks st) then remove1 i (current_tasks st)
                 else current_tasks st);
          compl = (if i \<notin> set (completed_tasks st) then completed_tasks st @ [i]
                  else completed_tasks st);
          res = (case task_results st i of
                   None \<Rightarrow> task_results st
                 | Some r \<Rightarrow>
                     (task_results st)
                       (i \<mapsto> stamp_duration now
                              (r\<lparr>status := COMPLETED, result_output := out, agent_used := agent\<rparr>)))
      in st\<lparr>current_tasks := cur, completed_tasks := compl, task_results := res\<rparr>)"

definition fail_task :: "time \<Rightarrow> string \<Rightarrow> string \<Rightarrow> WorkflowState \<Rightarrow> WorkflowState" where
  "fail_task now i err st =
     (let cur = (if i \<in> set (current_tasks st) then remove1 i (current_tasks st)
                 else current_tasks st);
          failed = (if i \<notin> set (failed_tasks st) then failed_tasks st @ [i]
                    else failed_tasks st);
          res = (case task_results st i of
                   None \<Rightarrow> task_results st
                 | Some r \<Rightarrow>
                     (task_results st)
                       (i \<mapsto> stamp_duration now (r\<lparr>status := FAILED, error := Some err\<rparr>)))
      in st\<lparr>current_tasks := cur, failed_tasks := failed, task_results := res\<rparr>)"

definition retry_task :: "string \<Rightarrow> WorkflowState \<Rightarrow> WorkflowState" where
  "retry_task i st =
     (let failed = (if i \<in> set (failed_tasks st) then remove1 i (failed_tasks st)
                    else failed_tasks st);
          pend = (if i \<notin> set (pending_tasks st) then pending_tasks st @ [i]
                  else pending_tasks st);
          res = (case task_results st i of
                   None \<Rightarrow> task_results st
                 | Some r \<Rightarrow>
                     (task_results st)
                       (i \<mapsto> r\<lparr>status := RETRYING, retry_count := retry_count r + 1\<rparr>))
      in st\<lparr>failed_tasks := failed, pending_tasks := pend, task_results := res\<rparr>)"

text \<open>\<^verbatim>\<open>skip_task\<close> reads the clock twice when it creates the result (\<open>now1\<close> for
  \<^verbatim>\<open>started_at\<close>, \<open>now2\<close> for \<^verbatim>\<open>completed_at\<close>) and not at all when a result exists.\<close>

definition skip_task :: "time \<Rightarrow> time \<Rightarrow> string \<Rightarrow> string \<Rightarrow> WorkflowState \<Rightarrow> WorkflowState" where
  "skip_task now1 now2 i reason st =
     (let pend = (if i \<in> set (pending_tasks st) then remove1 i (pending_tasks st)
                  else pending_tasks st);
          r = (case task_results st i of
                 None \<Rightarrow>
                   (TaskResult_init i SKIPPED)
                     \<lparr>error := Some reason, started_at := Some now1, completed_at := Some now2\<rparr>
               | Some r0 \<Rightarrow> r0\<lparr>status := SKIPPED, error := Some reason\<rparr>)
      in st\<lparr>pending_tasks := pend, task_results := (task_results st)(i \<mapsto> r)\<rparr>)"

definition is_workflow_complete :: "WorkflowState \<Rightarrow> bool" where
  "is_workflow_complete st \<longleftrightarrow> length (pending_tasks st) = 0 \<and> length (current_tasks st) = 0"

definition has_failed_tasks :: "WorkflowState \<Rightarrow> bool" where
  "has_failed_tasks st \<longleftrightarrow> length (failed_tasks st) > 0"

subsection \<open>Topological sort\<close>

text \<open>Exceptions are values. \<open>KeyError\<close> and \<open>IndexError\<close> are what a failed dictionary or list
  index raises; \<open>TypeError\<close> is what \<^verbatim>\<open>json.dumps\<close> raises for an object it cannot serialise.\<close>

datatype error = ValueError string | KeyError string | IndexError | TypeError string

text \<open>A Python \<^verbatim>\<open>dict\<close> with string keys, as the list of its items in insertion order:
  \<^verbatim>\<open>d[k] = v\<close> overwrites in place or appends, \<^verbatim>\<open>d.get(k)\<close> is \<open>map_of\<close>.\<close>

fun dict_set :: "string \<Rightarrow> 'v \<Rightarrow> (string \<times> 'v) list \<Rightarrow> (string \<times> 'v) list" where
  "dict_set k v [] = [(k, v)]"
| "dict_set k v ((k', v') # d) = (if k' = k then (k, v) # d else (k', v') # dict_set k v d)"

definition build_dependency_graph :: "WorkflowDefinition \<Rightarrow> (string \<times> string list) list" where
  "build_dependency_graph wfl = foldl (\<lambda>g t. dict_set (tid t) (depends_on t) g) [] (tasks wfl)"

text \<open>\<^verbatim>\<open>for dep in deps: in_degree[dep] = in_degree.get(dep, 0)\<close>\<close>

definition touch_deps :: "string list \<Rightarrow> (string \<times> int) list \<Rightarrow> (string \<times> int) list" where
  "touch_deps deps d =
     foldl (\<lambda>d dep. dict_set dep (case map_of d dep of None \<Rightarrow> 0 | Some x \<Rightarrow> x) d) d deps"

text \<open>\<^verbatim>\<open>for dep in deps: in_degree[task_id] += 1\<close>\<close>

fun count_edges :: "string \<Rightarrow> string list \<Rightarrow> (string \<times> int) list \<Rightarrow> error + (string \<times> int) list" where
  "count_edges i [] d = Inr d"
| "count_edges i (dep # deps) d =
     (case map_of d i of
        None \<Rightarrow> Inl (KeyError i)
      | Some x \<Rightarrow> count_edges i deps (dict_set i (x + 1) d))"

fun in_degrees ::
  "(string \<times> string list) list \<Rightarrow> (string \<times> int) list \<Rightarrow> error + (string \<times> int) list" where
  "in_degrees [] d = Inr d"
| "in_degrees ((i, deps) # g) d =
     (case count_edges i deps (touch_deps deps d) of
        Inl e \<Rightarrow> Inl e
      | Inr d' \<Rightarrow> in_degrees g d')"

text \<open>The inner loop of the queue loop: for every node that lists \<open>i\<close> among its dependencies,
  one decrement, and the node joins the queue when its count reaches zero.\<close>

fun remove_edges ::
  "string \<Rightarrow> (string \<times> string list) list \<Rightarrow> (string \<times> int) list \<Rightarrow> string list
   \<Rightarrow> error + ((string \<times> int) list \<times> string list)" where
  "remove_edges i [] d q = Inr (d, q)"
| "remove_edges i ((other, deps) # g) d q =
     (if i \<in> set deps then
        (case map_of d other of
           None \<Rightarrow> Inl (KeyError other)
         | Some x \<Rightarrow>
             remove_edges i g (dict_set other (x - 1) d)
               (if x - 1 = 0 then q @ [other] else q))
      else remove_edges i g d q)"

definition positive_entries :: "(string \<times> int) list \<Rightarrow> nat" where
  "positive_entries d = length (filter (\<lambda>p. 0 < snd p) d)"

lemma positive_entries_dict_set:
  "map_of d k = Some x \<Longrightarrow>
   positive_entries (dict_set k (x - 1) d) + (if x - 1 = 0 then 1 else 0) \<le> positive_entries d"
  by (induction d) (auto simp: positive_entries_def)

lemma remove_edges_measure:
  "remove_edges i g d q = Inr (d', q') \<Longrightarrow>
   length q' + positive_entries d' \<le> length q + positive_entries d"
proof (induction g arbitrary: d q)
  case Nil
  then show ?case by simp
next
  case (Cons a g)
  obtain other deps where a: "a = (other, deps)" by (cases a)
  show ?case
  proof (cases "i \<in> set deps")
    case False
    with Cons a show ?thesis by simp
  next
    case True
    with Cons.prems a obtain x where x: "map_of d other = Some x"
      and r: "remove_edges i g (dict_set other (x - 1) d)
                (if x - 1 = 0 then q @ [other] else q) = Inr (d', q')"
      by (auto split: option.splits)
    from Cons.IH [OF r] positive_entries_dict_set [OF x]
    show ?thesis by (auto split: if_splits)
  qed
qed

function kahn_loop ::
  "(string \<times> string list) list \<Rightarrow> (string \<times> int) list \<Rightarrow> string list \<Rightarrow> string list
   \<Rightarrow> error + string list" where
  "kahn_loop g d [] res = Inr res"
| "kahn_loop g d (i # q) res =
     (case remove_edges i g d q of
        Inl e \<Rightarrow> Inl e
      | Inr (d', q') \<Rightarrow> kahn_loop g d' q' (res @ [i]))"
  by pat_completeness auto
termination
proof (relation "measure (\<lambda>(g, d, q, res). length q + positive_entries d)")
  show "wf (measure (\<lambda>(g, d, q, res). length q + positive_entries d))" by simp
next
  fix g :: "(string \<times> string list) list" and d i q res x2 x y
  assume "remove_edges i g d q = Inr x2" and "(x, y) = x2"
  then have "remove_edges i g d q = Inr (x, y)" by simp
  from remove_edges_measure [OF this]
  show "((g, x, y, res @ [i]), (g, d, i # q, res))
          \<in> measure (\<lambda>(g, d, q, res). length q + positive_entries d)"
    by simp
qed

definition topological_sort :: "WorkflowDefinition \<Rightarrow> error + string list" where
  "topological_sort wfl =
     (let graph = build_dependency_graph wfl;
          in_degree0 = foldl (\<lambda>d t. dict_set (tid t) 0 d) [] (tasks wfl)
      in case in_degrees graph in_degree0 of
           Inl e \<Rightarrow> Inl e
         | Inr in_degree \<Rightarrow>
             (case kahn_loop graph in_degree
                     (map fst (filter (\<lambda>p. snd p = 0) in_degree)) [] of
                Inl e \<Rightarrow> Inl e
              | Inr res \<Rightarrow>
                  if length res \<noteq> length (tasks wfl)
                  then Inl (ValueError ''Circular dependency detected in workflow'')
                  else Inr res))"

text \<open>\<^verbatim>\<open>str(e)\<close> of a raised exception.\<close>

fun error_str :: "error \<Rightarrow> string" where
  "error_str (ValueError m) = m"
| "error_str (KeyError k) = [CHR 0x27] @ k @ [CHR 0x27]"
| "error_str IndexError = ''list index out of range''"
| "error_str (TypeError m) = m"

section \<open>Router (orchestration/routing.py)\<close>

text \<open>\<^verbatim>\<open>agent_load\<close> is a dictionary from agent type to its counter; \<^verbatim>\<open>.get(a, 0)\<close> reads it.\<close>

definition get_agent_load :: "(string \<rightharpoonup> int) \<Rightarrow> string \<Rightarrow> int" where
  "get_agent_load load a = (case load a of None \<Rightarrow> 0 | Some n \<Rightarrow> n)"

definition increment_agent_load :: "string \<Rightarrow> (string \<rightharpoonup> int) \<Rightarrow> (string \<rightharpoonup> int)" where
  "increment_agent_load a load = load(a \<mapsto> get_agent_load load a + 1)"

definition decrement_agent_load :: "string \<Rightarrow> (string \<rightharpoonup> int) \<Rightarrow> (string \<rightharpoonup> int)" where
  "decrement_agent_load a load = load(a \<mapsto> max 0 (get_agent_load load a - 1))"

definition agent_matches_capabilities :: "AgentRouting \<Rightarrow> AgentCapability list \<Rightarrow> bool" where
  "agent_matches_capabilities ar required \<longleftrightarrow> set required \<subseteq> set (capabilities ar)"

definition find_suitable_agents :: "AgentRouting list \<Rightarrow> TaskDefinition \<Rightarrow> AgentRouting list" where
  "find_suitable_agents routing t =
     filter (\<lambda>ar. agent_matches_capabilities ar (required_capabilities t)) routing"

text \<open>The sort key \<^verbatim>\<open>(load, -priority, -specificity)\<close>; tuples compare lexicographically.\<close>

definition sort_key_agent :: "(string \<rightharpoonup> int) \<Rightarrow> AgentRouting \<Rightarrow> int \<times> int \<times> int" where
  "sort_key_agent load a =
     (get_agent_load load (ar_agent_type a), - ar_priority a, - int (length (capabilities a)))"

text \<open>\<^verbatim>\<open>list.sort(key=...)\<close> is a stable sort, as \<open>sort_key\<close> is; \<^verbatim>\<open>available_agents[0]\<close> raises
  \<^verbatim>\<open>IndexError\<close> on an empty list.\<close>

definition select_best_agent ::
  "(string \<rightharpoonup> int) \<Rightarrow> AgentRouting list \<Rightarrow> error + AgentRouting" where
  "select_best_agent load suitable_agents =
     (let available_agents =
            filter (\<lambda>a. get_agent_load load (ar_agent_type a) < max_concurrent_tasks a)
              suitable_agents;
          available_agents =
            (if available_agents = [] then suitable_agents else available_agents)
      in case sort_key (sort_key_agent load) available_agents of
           [] \<Rightarrow> Inl IndexError
         | a # _ \<Rightarrow> Inr a)"

text \<open>\<^verbatim>\<open>if task.agent_type:\<close> holds for a string that is neither \<^verbatim>\<open>None\<close> nor empty.\<close>

definition route_task ::
  "AgentRouting list \<Rightarrow> (string \<rightharpoonup> int) \<Rightarrow> TaskDefinition \<Rightarrow> error + string" where
  "route_task routing load t =
     (let by_capability =
            (let suitable_agents = find_suitable_agents routing t
             in if suitable_agents = [] then Inr ''general-purpose''
                else (case select_best_agent load suitable_agents of
                        Inl e \<Rightarrow> Inl e
                      | Inr best_agent \<Rightarrow> Inr (ar_agent_type best_agent)))
      in case agent_type t of
           None \<Rightarrow> by_capability
         | Some a \<Rightarrow> if a \<noteq> [] then Inr a else by_capability)"

section \<open>Coordinator and per-task driver (orchestration/coordinator.py)\<close>

text \<open>
  What the driver touches besides the workflow state: the router's load counters, the clock
  (\<open>ticks\<close> counts the readings taken so far; reading \<open>n\<close> is \<open>clk n\<close>), and the agent
  substrate. The substrate is opaque: its \<open>n\<close>-th invocation, for a task and an agent type,
  either raises (\<open>Inl\<close> the exception's message) or returns text (\<open>Inr\<close>).
  \<open>invocations\<close> counts the calls of \<^verbatim>\<open>_execute_single_task\<close>, and \<open>trace\<close> records them
  together with the calls of \<^verbatim>\<open>retry_task\<close> and \<^verbatim>\<open>asyncio.sleep\<close>, in order.
  Progress callbacks (optional, observers only), the per-task and workflow timeouts and
  cancellation are left out. The driver's return value \<^verbatim>\<open>task_results[task.id]\<close> is discarded
  by every executor.
\<close>

datatype event = Invoke string | Retry string | Sleep real

record world =
  wstate :: WorkflowState
  agent_load :: "string \<rightharpoonup> int"
  ticks :: nat
  invocations :: nat
  trace :: "event list"

type_synonym clock = "nat \<Rightarrow> time"
type_synonym agent = "nat \<Rightarrow> TaskDefinition \<Rightarrow> string \<Rightarrow> string + string"

text \<open>The \<^verbatim>\<open>while retry_count <= max_retries\<close> loop of \<^verbatim>\<open>execute_task\<close>.\<close>

function retry_loop ::
  "clock \<Rightarrow> agent \<Rightarrow> TaskDefinition \<Rightarrow> string \<Rightarrow> nat \<Rightarrow> real \<Rightarrow> world \<Rightarrow> world" where
  "retry_loop clk ag t a retry_cnt delay w =
     (if retry_cnt \<le> max_retries (retry_config t) then
        (let w1 = w\<lparr>invocations := invocations w + 1, trace := trace w @ [Invoke (tid t)]\<rparr>
         in case ag (invocations w) t a of
              Inr result \<Rightarrow>
                w1\<lparr>wstate := complete_task (clk (ticks w1)) (tid t) (Some result) (Some a) (wstate w1),
                    ticks := ticks w1 + 1,
                    agent_load := decrement_agent_load a (agent_load w1)\<rparr>
            | Inl error_msg \<Rightarrow>
                if retry_cnt < max_retries (retry_config t) then
                  retry_loop clk ag t a (retry_cnt + 1)
                    (min (delay * backoff_multiplier (retry_config t)) (max_delay (retry_config t)))
                    (w1\<lparr>wstate := retry_task (tid t) (wstate w1),
                        trace := trace w1 @ [Retry (tid t), Sleep delay]\<rparr>)
                else
                  w1\<lparr>wstate := fail_task (clk (ticks w1)) (tid t) error_msg (wstate w1),
                      ticks := ticks w1 + 1,
                      agent_load := decrement_agent_load a (agent_load w1)\<rparr>)
      else
        w\<lparr>wstate := fail_task (clk (ticks w)) (tid t) ''Unexpected error in retry logic'' (wstate w),
           ticks := ticks w + 1,
           agent_load := decrement_agent_load a (agent_load w)\<rparr>)"
  by pat_completeness auto
termination
  by (relation "measure (\<lambda>(clk, ag, t, a, retry_cnt, delay, w).
        max_retries (retry_config t) + 1 - retry_cnt)") auto

declare retry_loop.simps [simp del]

text \<open>The driver \<^verbatim>\<open>execute_task\<close>: route, count the load, start the task, run the retry loop.
  An exception of the router leaves the driver with the state as it is.\<close>

definition execute_task ::
  "clock \<Rightarrow> agent \<Rightarrow> AgentRouting list \<Rightarrow> TaskDefinition \<Rightarrow> world \<Rightarrow> (error \<times> world) + world" where
  "execute_task clk ag routing t w =
     (case route_task routing (agent_load w) t of
        Inl e \<Rightarrow> Inl (e, w)
      | Inr a \<Rightarrow>
          (let w1 = w\<lparr>agent_load := increment_agent_load a (agent_load w)\<rparr>;
               w2 = w1\<lparr>wstate := start_task (clk (ticks w1)) (tid t) (wstate w1),
                        ticks := ticks w1 + 1\<rparr>
           in Inr (retry_loop clk ag t a 0 (initial_delay (retry_config t)) w2)))"

section \<open>Executors (orchestration/executor.py)\<close>

text \<open>\<^verbatim>\<open>SequentialExecutor.execute\<close>: the tasks in declaration order. A skip takes its two
  clock readings only when it creates the result.\<close>

fun sequential_loop ::
  "clock \<Rightarrow> agent \<Rightarrow> AgentRouting list \<Rightarrow> WorkflowDefinition \<Rightarrow> TaskDefinition list \<Rightarrow> world
   \<Rightarrow> (error \<times> world) + world" where
  "sequential_loop clk ag routing wfl [] w = Inr w"
| "sequential_loop clk ag routing wfl (t # ts) w =
     (if \<not> continue_on_failure wfl \<and> has_failed_tasks (wstate w) then
        sequential_loop clk ag routing wfl ts
          (w\<lparr>wstate := skip_task (clk (ticks w)) (clk (ticks w + 1)) (tid t)
                          ''Previous task failed'' (wstate w),
             ticks := (case task_results (wstate w) (tid t) of
                         None \<Rightarrow> ticks w + 2
                       | Some r \<Rightarrow> ticks w)\<rparr>)
      else
        (case execute_task clk ag routing t w of
           Inl e \<Rightarrow> Inl e
         | Inr w' \<Rightarrow> sequential_loop clk ag routing wfl ts w'))"

definition SequentialExecutor_execute ::
  "clock \<Rightarrow> agent \<Rightarrow> AgentRouting list \<Rightarrow> WorkflowDefinition \<Rightarrow> world \<Rightarrow> (error \<times> world) + world" where
  "SequentialExecutor_execute clk ag routing wfl w = sequential_loop clk ag routing wfl (tasks wfl) w"

text \<open>
  \<^verbatim>\<open>DAGExecutor.execute\<close> up to its scheduling loop: the validation by \<open>topological_sort\<close>.
  A \<^verbatim>\<open>ValueError\<close> is caught, every task is passed to \<open>fail_task\<close> with the message (the
  clock is read only for a task that has a result), and the executor returns (\<open>CycleReturn\<close>); any other exception leaves the executor (\<open>Raises\<close>);
  otherwise the scheduling loop is entered (\<open>Schedule\<close>), whose interleavings are not
  modelled.
\<close>

datatype dag_validation = CycleReturn world | Raises error world | Schedule world

definition fail_all :: "clock \<Rightarrow> string \<Rightarrow> TaskDefinition list \<Rightarrow> world \<Rightarrow> world" where
  "fail_all clk msg ts w =
     foldl (\<lambda>w t. w\<lparr>wstate := fail_task (clk (ticks w)) (tid t) msg (wstate w),
                     ticks := (case task_results (wstate w) (tid t) of
                                 None \<Rightarrow> ticks w
                               | Some r \<Rightarrow> ticks w + 1)\<rparr>) w ts"

definition DAGExecutor_validate :: "clock \<Rightarrow> WorkflowDefinition \<Rightarrow> world \<Rightarrow> dag_validation" where
  "DAGExecutor_validate clk wfl w =
     (case topological_sort wfl of
        Inl (ValueError msg) \<Rightarrow> CycleReturn (fail_all clk msg (tasks wfl) w)
      | Inl e \<Rightarrow> Raises e w
      | Inr order \<Rightarrow> Schedule w)"

subsection \<open>The coordinator around an executor\<close>

text \<open>Lines 127--131 of \<^verbatim>\<open>execute_workflow\<close>: the status after the executor has returned.\<close>

definition finish_workflow :: "time \<Rightarrow> WorkflowDefinition \<Rightarrow> WorkflowState \<Rightarrow> WorkflowState" where
  "finish_workflow now wfl st =
     (if has_failed_tasks st \<and> \<not> continue_on_failure wfl
      then fail_workflow now ''One or more tasks failed'' st
      else complete_workflow now st)"

text \<open>\<^verbatim>\<open>execute_workflow\<close> without a workflow timeout, around the \<^verbatim>\<open>execute\<close> method of the
  executor the factory built: a fresh state store, \<open>start_workflow\<close>, the executor, then the
  final status; an exception of the executor is caught and fails the workflow.\<close>

definition execute_workflow ::
  "(world \<Rightarrow> (error \<times> world) + world) \<Rightarrow> clock \<Rightarrow> WorkflowDefinition \<Rightarrow> world \<Rightarrow> world" where
  "execute_workflow executor clk wfl w =
     (let w1 = w\<lparr>wstate := start_workflow (clk (ticks w)) (StateManager_init wfl),
                  ticks := ticks w + 1\<rparr>
      in case executor w1 of
           Inr w2 \<Rightarrow>
             w2\<lparr>wstate := finish_workflow (clk (ticks w2)) wfl (wstate w2), ticks := ticks w2 + 1\<rparr>
         | Inl (e, w2) \<Rightarrow>
             w2\<lparr>wstate := fail_workflow (clk (ticks w2))
                             (''Workflow execution error: '' @ error_str e) (wstate w2),
                 ticks := ticks w2 + 1\<rparr>)"

section \<open>Protocol of the state store\<close>

text \<open>
  The states the transition primitives reach when each one is applied to a task id that is in
  the set the primitive moves it from: \<open>start_task\<close> and \<open>skip_task\<close> to a pending id,
  \<open>complete_task\<close> and \<open>fail_task\<close> to a current id, \<open>retry_task\<close> to a failed id, from the
  initial state of a workflow whose task ids are distinct.
\<close>

inductive reachable :: "WorkflowDefinition \<Rightarrow> WorkflowState \<Rightarrow> bool" for wfl where
  r_init: "distinct (map tid (tasks wfl)) \<Longrightarrow> reachable wfl (StateManager_init wfl)"
| r_start: "reachable wfl st \<Longrightarrow> i \<in> set (pending_tasks st) \<Longrightarrow>
     reachable wfl (start_task now i st)"
| r_complete: "reachable wfl st \<Longrightarrow> i \<in> set (current_tasks st) \<Longrightarrow>
     reachable wfl (complete_task now i out ag st)"
| r_fail: "reachable wfl st \<Longrightarrow> i \<in> set (current_tasks st) \<Longrightarrow>
     reachable wfl (fail_task now i err st)"
| r_retry: "reachable wfl st \<Longrightarrow> i \<in> set (failed_tasks st) \<Longrightarrow>
     reachable wfl (retry_task i st)"
| r_skip: "reachable wfl st \<Longrightarrow> i \<in> set (pending_tasks st) \<Longrightarrow>
     reachable wfl (skip_task now1 now2 i reason st)"

definition membership :: "WorkflowState \<Rightarrow> string list" where
  "membership st = pending_tasks st @ current_tasks st @ completed_tasks st @ failed_tasks st"

definition store_inv :: "WorkflowState \<Rightarrow> bool" where
  "store_inv st \<longleftrightarrow>
     distinct (membership st) \<and>
     (\<forall>i r. task_results st i = Some r \<and> status r = SKIPPED \<longrightarrow> i \<notin> set (membership st))"

section \<open>Strategy selector (orchestration/strategy_selector.py)\<close>

text \<open>The dictionary \<^verbatim>\<open>analyze_workflow\<close> returns, without the floating-point average.\<close>

record workflow_analysis =
  task_count :: nat
  has_dependencies :: bool
  has_conditions :: bool
  total_dependencies :: nat
  independent_tasks :: nat
  can_parallelize :: bool

definition analyze_workflow :: "WorkflowDefinition \<Rightarrow> workflow_analysis" where
  "analyze_workflow wfl =
     (let has_deps = list_ex (\<lambda>t. length (depends_on t) > 0) (tasks wfl);
          has_conds = list_ex (\<lambda>t. condition t \<noteq> None) (tasks wfl);
          total_deps = sum_list (map (\<lambda>t. length (depends_on t)) (tasks wfl));
          independent = length (filter (\<lambda>t. length (depends_on t) = 0) (tasks wfl))
      in \<lparr>task_count = length (tasks wfl), has_dependencies = has_deps,
          has_conditions = has_conds, total_dependencies = total_deps,
          independent_tasks = independent,
          can_parallelize = (independent > 1 \<or> (has_deps \<and> independent > 0))\<rparr>)"

definition recommend_strategy :: "WorkflowDefinition \<Rightarrow> ExecutionStrategy" where
  "recommend_strategy wfl =
     (if tasks wfl = [] then SEQUENTIAL
      else
        (let analysis = analyze_workflow wfl
         in if has_conditions analysis then CONDITIONAL
            else if \<not> has_dependencies analysis then
              (if task_count analysis > 1 then PARALLEL else SEQUENTIAL)
            else if has_dependencies analysis then DAG
            else SEQUENTIAL))"

subsection \<open>Backoff schedule\<close>

text \<open>The delays as the specification states them: \<open>d\<^sub>0 = initial_delay\<close> and
  \<open>d\<^bsub>k+1\<^esub> = min (d\<^sub>k * backoff_multiplier) max_delay\<close>.\<close>

primrec backoff_delay :: "RetryConfig \<Rightarrow> nat \<Rightarrow> real" where
  "backoff_delay rc 0 = initial_delay rc"
| "backoff_delay rc (Suc k) = min (backoff_delay rc k * backoff_multiplier rc) (max_delay rc)"

text \<open>What a failing run of the driver leaves in the trace from attempt \<open>k\<close> on: each attempt
  but the last is followed by \<open>retry_task\<close> and the sleep.\<close>

definition failing_trace :: "TaskDefinition \<Rightarrow> nat \<Rightarrow> event list" where
  "failing_trace t k =
     concat (map (\<lambda>j. [Invoke (tid t), Retry (tid t), Sleep (backoff_delay (retry_config t) j)])
               [k ..< max_retries (retry_config t)])
     @ [Invoke (tid t)]"

section \<open>Result cache (orchestration/cache.py)\<close>

subsection \<open>\<^verbatim>\<open>json.dumps(..., sort_keys=True)\<close>\<close>

text \<open>
  The serialisation the cache key is hashed from: the default separators, \<^verbatim>\<open>ensure_ascii\<close>, and
  every dictionary written with its items sorted by key. Strings are sequences of code points
  below 256; floating-point values are outside the model.
\<close>

definition hex_digit :: "nat \<Rightarrow> char" where
  "hex_digit n = ''0123456789abcdef'' ! (n mod 16)"

definition escape_char :: "char \<Rightarrow> string" where
  "escape_char c =
     (if c = CHR 0x22 then [CHR 0x5C, CHR 0x22]
      else if c = CHR 0x5C then [CHR 0x5C, CHR 0x5C]
      else if c = CHR 0x0A then [CHR 0x5C, CHR ''n'']
      else if c = CHR 0x0D then [CHR 0x5C, CHR ''r'']
      else if c = CHR 0x09 then [CHR 0x5C, CHR ''t'']
      else if c = CHR 0x08 then [CHR 0x5C, CHR ''b'']
      else if c = CHR 0x0C then [CHR 0x5C, CHR ''f'']
      else if (of_char c :: nat) < 32 \<or> (of_char c :: nat) > 126
      then [CHR 0x5C, CHR ''u'', CHR ''0'', CHR ''0'',
            hex_digit (of_char c div 16), hex_digit (of_char c mod 16)]
      else [c])"

definition encode_basestring_ascii :: "string \<Rightarrow> string" where
  "encode_basestring_ascii s = [CHR 0x22] @ concat (map escape_char s) @ [CHR 0x22]"

fun nat_digits :: "nat \<Rightarrow> string" where
  "nat_digits n =
     (if n < 10 then [''0123456789'' ! n]
      else nat_digits (n div 10) @ [''0123456789'' ! (n mod 10)])"

declare nat_digits.simps [simp del]

definition str_int :: "int \<Rightarrow> string" where
  "str_int i = (if i < 0 then CHR ''-'' # nat_digits (nat (- i)) else nat_digits (nat i))"

fun join :: "string \<Rightarrow> string list \<Rightarrow> string" where
  "join sep [] = []"
| "join sep [x] = x"
| "join sep (x # y # ys) = x @ sep @ join sep (y # ys)"

text \<open>The parts of a list in order, or the first exception raised among them.\<close>

fun collect :: "(error + 'a) list \<Rightarrow> error + 'a list" where
  "collect [] = Inr []"
| "collect (Inl e # xs) = Inl e"
| "collect (Inr v # xs) = (case collect xs of Inl e \<Rightarrow> Inl e | Inr vs \<Rightarrow> Inr (v # vs))"

fun dumps :: "pyvalue \<Rightarrow> error + string" where
  "dumps PyNone = Inr ''null''"
| "dumps (PyBool b) = Inr (if b then ''true'' else ''false'')"
| "dumps (PyInt i) = Inr (str_int i)"
| "dumps (PyStr s) = Inr (encode_basestring_ascii s)"
| "dumps (PyList xs) =
     (case collect (map dumps xs) of
        Inl e \<Rightarrow> Inl e
      | Inr parts \<Rightarrow> Inr (''['' @ join '', '' parts @ '']''))"
| "dumps (PyDict kvs) =
     (case collect (map (\<lambda>kv. case dumps (snd kv) of
                               Inl e \<Rightarrow> Inl e
                             | Inr s \<Rightarrow> Inr (encode_basestring_ascii (fst kv) @ '': '' @ s))
                      (sort_key fst kvs)) of
        Inl e \<Rightarrow> Inl e
      | Inr parts \<Rightarrow> Inr (''{'' @ join '', '' parts @ ''}''))"
| "dumps (PyObject ty) = Inl (TypeError (''Object of type '' @ ty @ '' is not JSON serializable''))"

subsection \<open>Cache key\<close>

text \<open>\<^verbatim>\<open>str(c)\<close> of a member of the enumeration \<^verbatim>\<open>AgentCapability(str, Enum)\<close>.\<close>

fun capability_name :: "AgentCapability \<Rightarrow> string" where
  "capability_name GENERAL = ''GENERAL''"
| "capability_name CODE_ANALYSIS = ''CODE_ANALYSIS''"
| "capability_name CODE_GENERATION = ''CODE_GENERATION''"
| "capability_name TESTING = ''TESTING''"
| "capability_name DEBUGGING = ''DEBUGGING''"
| "capability_name DOCUMENTATION = ''DOCUMENTATION''"
| "capability_name DATA_PROCESSING = ''DATA_PROCESSING''"
| "capability_name FILE_OPERATIONS = ''FILE_OPERATIONS''"
| "capability_name API_INTEGRATION = ''API_INTEGRATION''"
| "capability_name RESEARCH = ''RESEARCH''"

definition str_capability :: "AgentCapability \<Rightarrow> string" where
  "str_capability c = ''AgentCapability.'' @ capability_name c"

text \<open>\<^verbatim>\<open>str(result.output)\<close>.\<close>

definition str_output :: "string option \<Rightarrow> string" where
  "str_output out = (case out of None \<Rightarrow> ''None'' | Some s \<Rightarrow> s)"

text \<open>\<open>dependency_results\<close> is \<^verbatim>\<open>None\<close> or a dictionary; it is truthy when it is a non-empty
  dictionary.\<close>

definition dep_outputs ::
  "TaskDefinition \<Rightarrow> (string \<times> TaskResult) list \<Rightarrow> (string \<times> pyvalue) list" where
  "dep_outputs task dependency_results =
     foldl (\<lambda>out dep_id.
              case map_of dependency_results dep_id of
                None \<Rightarrow> out
              | Some r \<Rightarrow> dict_set dep_id (PyStr (str_output (result_output r))) out)
       [] (depends_on task)"

definition key_components ::
  "TaskDefinition \<Rightarrow> (string \<times> TaskResult) list option \<Rightarrow> bool \<Rightarrow> pyvalue" where
  "key_components task dependency_results include_deps =
     PyDict
       ([(''task_id'', PyStr (tid task)),
         (''description'', PyStr (description task)),
         (''parameters'', PyDict (parameters task)),
         (''required_capabilities'', PyList (map (\<lambda>c. PyStr (str_capability c)) (required_capabilities task))),
         (''required_skills'', PyList (map PyStr (required_skills task)))]
        @ (case dependency_results of
             None \<Rightarrow> []
           | Some deps \<Rightarrow>
               if include_deps \<and> deps \<noteq> []
               then [(''dependencies'', PyDict (dep_outputs task deps))]
               else []))"

text \<open>\<^verbatim>\<open>CacheKey.generate\<close>. The hash \<^verbatim>\<open>hashlib.sha256(...).hexdigest()\<close> is the parameter
  \<open>sha256_hex\<close>.\<close>

definition generate ::
  "(string \<Rightarrow> string) \<Rightarrow> TaskDefinition \<Rightarrow> (string \<times> TaskResult) list option \<Rightarrow> bool
   \<Rightarrow> error + string" where
  "generate sha256_hex task dependency_results include_deps =
     (case dumps (key_components task dependency_results include_deps) of
        Inl e \<Rightarrow> Inl e
      | Inr key_json \<Rightarrow> Inr (sha256_hex key_json))"

subsection \<open>The cache\<close>

datatype CacheStrategy = NONE | MEMORY | DISK | HYBRID

record CacheConfig =
  strategy :: CacheStrategy
  ttl_seconds :: "int option"
  max_size :: nat
  include_dependencies :: bool

record CacheEntry =
  entry_key :: string
  entry_result :: TaskResult
  created_at :: time
  accessed_at :: time
  access_count :: nat
  dependency_keys :: "string list"

text \<open>The memory tier is the dictionary \<^verbatim>\<open>_memory_cache\<close>; the disk tier is the cache directory,
  one file per key with its modification time. Failures of the file system are not modelled.\<close>

record ResultCache =
  config :: CacheConfig
  memory_cache :: "(string \<times> CacheEntry) list"
  disk_cache :: "(string \<times> TaskResult \<times> time) list"
  hits :: nat
  misses :: nat
  evictions :: nat
  invalidations :: nat

text \<open>\<^verbatim>\<open>del d[k]\<close>.\<close>

definition dict_del :: "string \<Rightarrow> (string \<times> 'v) list \<Rightarrow> (string \<times> 'v) list" where
  "dict_del k d = filter (\<lambda>kv. fst kv \<noteq> k) d"

text \<open>\<^verbatim>\<open>min(keys, key=...)\<close> is the first key whose \<open>accessed_at\<close> is least.\<close>

definition evict_lru :: "ResultCache \<Rightarrow> ResultCache" where
  "evict_lru c =
     (if memory_cache c = [] then c
      else
        (let lru_key = fst (arg_min_list (\<lambda>kv. accessed_at (snd kv)) (memory_cache c))
         in c\<lparr>memory_cache := dict_del lru_key (memory_cache c), evictions := evictions c + 1\<rparr>))"

definition store_in_memory ::
  "time \<Rightarrow> time \<Rightarrow> string \<Rightarrow> TaskResult \<Rightarrow> string list \<Rightarrow> ResultCache \<Rightarrow> ResultCache" where
  "store_in_memory now1 now2 k r dep_keys c =
     (let c1 = (if length (memory_cache c) \<ge> max_size (config c) then evict_lru c else c);
          entry = \<lparr>entry_key = k, entry_result = r, created_at = now1, accessed_at = now2,
                   access_count = 0, dependency_keys = dep_keys\<rparr>
      in c1\<lparr>memory_cache := dict_set k entry (memory_cache c1)\<rparr>)"

definition save_to_disk :: "time \<Rightarrow> string \<Rightarrow> TaskResult \<Rightarrow> ResultCache \<Rightarrow> ResultCache" where
  "save_to_disk now k r c = c\<lparr>disk_cache := dict_set k (r, now) (disk_cache c)\<rparr>"

text \<open>The dependency keys \<open>put\<close> records: for each dependency that has a result, the key of
  \<^verbatim>\<open>TaskDefinition(id=dep_id, description="")\<close> without dependencies.\<close>

definition put_dep_keys ::
  "(string \<Rightarrow> string) \<Rightarrow> TaskDefinition \<Rightarrow> (string \<times> TaskResult) list option \<Rightarrow> bool
   \<Rightarrow> error + string list" where
  "put_dep_keys sha256_hex task dependency_results include_deps =
     (case dependency_results of
        None \<Rightarrow> Inr []
      | Some deps \<Rightarrow>
          if include_deps \<and> deps \<noteq> []
          then collect (map (\<lambda>dep_id. generate sha256_hex (TaskDefinition_init dep_id '''') None False)
                          (filter (\<lambda>dep_id. map_of deps dep_id \<noteq> None) (depends_on task)))
          else Inr [])"

text \<open>\<open>put\<close> reads the clock twice for the memory entry and the file gets its modification
  time.\<close>

definition put ::
  "(string \<Rightarrow> string) \<Rightarrow> time \<Rightarrow> time \<Rightarrow> time \<Rightarrow> TaskDefinition \<Rightarrow> TaskResult
   \<Rightarrow> (string \<times> TaskResult) list option \<Rightarrow> ResultCache \<Rightarrow> error + ResultCache" where
  "put sha256_hex now1 now2 now3 task r dependency_results c =
     (if strategy (config c) = NONE then Inr c
      else
        (case generate sha256_hex task dependency_results (include_dependencies (config c)) of
           Inl e \<Rightarrow> Inl e
         | Inr k \<Rightarrow>
             (case put_dep_keys sha256_hex task dependency_results
                     (include_dependencies (config c)) of
                Inl e \<Rightarrow> Inl e
              | Inr dep_keys \<Rightarrow>
                  (let c1 = (if strategy (config c) = MEMORY \<or> strategy (config c) = HYBRID
                             then store_in_memory now1 now2 k r dep_keys c else c);
                       c2 = (if strategy (config c) = DISK \<or> strategy (config c) = HYBRID
                             then save_to_disk now3 k r c1 else c1)
                   in Inr c2))))"

text \<open>\<open>invalidate_dependents\<close> returns the count and the cache. The key it looks for is the
  first 16 characters of the digest of the bare task id.\<close>

definition invalidate_dependents ::
  "(string \<Rightarrow> string) \<Rightarrow> string \<Rightarrow> ResultCache \<Rightarrow> nat \<times> ResultCache" where
  "invalidate_dependents sha256_hex i c =
     (let task_key = take 16 (sha256_hex i);
          keys_to_remove =
            map fst (filter (\<lambda>kv. task_key \<in> set (dependency_keys (snd kv))) (memory_cache c));
          c1 = c\<lparr>memory_cache := foldl (\<lambda>m k. dict_del k m) (memory_cache c) keys_to_remove\<rparr>;
          count = length keys_to_remove
      in (count, c1\<lparr>invalidations := invalidations c1 + count\<rparr>))"

text \<open>Every dependency key recorded in the memory tier is a full digest.\<close>

definition full_dependency_keys :: "(string \<times> CacheEntry) list \<Rightarrow> bool" where
  "full_dependency_keys m =
     list_all (\<lambda>kv. list_all (\<lambda>d. length d = 64) (dependency_keys (snd kv))) m"

section \<open>Example inputs\<close>

definition wf_one :: WorkflowDefinition where
  "wf_one = WorkflowDefinition_init ''w'' [TaskDefinition_init ''A'' ''a'']"

definition wf_repeated :: WorkflowDefinition where
  "wf_repeated =
     WorkflowDefinition_init ''w''
       [TaskDefinition_init ''A'' ''a'', TaskDefinition_init ''B'' ''b'', TaskDefinition_init ''B'' ''b'']"

definition wf_two :: WorkflowDefinition where
  "wf_two = WorkflowDefinition_init ''w'' [TaskDefinition_init ''A'' ''a'', TaskDefinition_init ''B'' ''b'']"

definition wf_empty_condition :: WorkflowDefinition where
  "wf_empty_condition =
     WorkflowDefinition_init ''w''
       [(TaskDefinition_init ''A'' ''a'')\<lparr>condition := Some ''''\<rparr>, TaskDefinition_init ''B'' ''b'']"

definition wf_chain :: WorkflowDefinition where
  "wf_chain =
     WorkflowDefinition_init ''w''
       [TaskDefinition_init ''A'' ''a'', (TaskDefinition_init ''B'' ''b'')\<lparr>depends_on := [''A'']\<rparr>]"

definition routing_duplicates :: "AgentRouting list" where
  "routing_duplicates =
     [\<lparr>ar_agent_type = ''repeater'', capabilities = [GENERAL, GENERAL, GENERAL], ar_priority = 5,
       max_concurrent_tasks = 1\<rparr>,
      \<lparr>ar_agent_type = ''tester'', capabilities = [GENERAL, TESTING], ar_priority = 5,
       max_concurrent_tasks = 1\<rparr>]"

definition routing_default :: "AgentRouting list" where
  "routing_default =
     [\<lparr>ar_agent_type = ''general-purpose'', capabilities = [GENERAL], ar_priority = 5,
       max_concurrent_tasks = 3\<rparr>,
      \<lparr>ar_agent_type = ''code-analyzer'', capabilities = [CODE_ANALYSIS, DEBUGGING, GENERAL],
       ar_priority = 7, max_concurrent_tasks = 2\<rparr>,
      \<lparr>ar_agent_type = ''code-generator'', capabilities = [CODE_GENERATION, GENERAL],
       ar_priority = 7, max_concurrent_tasks = 2\<rparr>]"

definition clock0 :: clock where
  "clock0 n = int n"

definition world0 :: world where
  "world0 =
     \<lparr>wstate = StateManager_init (WorkflowDefinition_init ''w'' []), agent_load = Map.empty,
      ticks = 0, invocations = 0, trace = []\<rparr>"

definition agent_failing :: agent where
  "agent_failing n t a = Inl ''boom''"

definition task_no_retry :: TaskDefinition where
  "task_no_retry =
     (TaskDefinition_init ''A'' ''a'')
       \<lparr>retry_config := \<lparr>max_retries = 0, backoff_multiplier = 2, initial_delay = 1, max_delay = 60\<rparr>\<rparr>"

definition agent_ok :: agent where
  "agent_ok n t a = Inr (''ok:'' @ tid t)"

definition agent_A_only :: agent where
  "agent_A_only n t a = (if tid t = ''A'' then Inr ''ok:A'' else Inl ''boom'')"

definition agent_B_only :: agent where
  "agent_B_only n t a = (if tid t = ''B'' then Inr ''ok:B'' else Inl ''boom'')"

definition task_once :: "string \<Rightarrow> TaskDefinition" where
  "task_once i =
     (TaskDefinition_init i ''work'')
       \<lparr>retry_config := \<lparr>max_retries = 0, backoff_multiplier = 2, initial_delay = 1, max_delay = 60\<rparr>,
        agent_type := Some ''general-purpose''\<rparr>"

definition wf_continue :: WorkflowDefinition where
  "wf_continue =
     (WorkflowDefinition_init ''w'' [task_once ''A'', task_once ''B''])
       \<lparr>execution_strategy := SEQUENTIAL, continue_on_failure := True\<rparr>"

definition wf_fail_fast :: WorkflowDefinition where
  "wf_fail_fast =
     (WorkflowDefinition_init ''w'' [task_once ''A'', task_once ''B''])
       \<lparr>execution_strategy := SEQUENTIAL\<rparr>"

definition wf_cycle :: WorkflowDefinition where
  "wf_cycle =
     WorkflowDefinition_init ''test''
       [(TaskDefinition_init ''task1'' ''Task 1'')\<lparr>depends_on := [''task2'']\<rparr>,
        (TaskDefinition_init ''task2'' ''Task 2'')\<lparr>depends_on := [''task1'']\<rparr>]"

text \<open>A stand-in digest of the right length, and a memory cache with default configuration.\<close>

definition digest0 :: "string \<Rightarrow> string" where
  "digest0 s = take 64 (s @ replicate 64 CHR ''0'')"

definition cache0 :: ResultCache where
  "cache0 =
     \<lparr>config = \<lparr>strategy = MEMORY, ttl_seconds = None, max_size = 1000, include_dependencies = True\<rparr>,
      memory_cache = [], disk_cache = [], hits = 0, misses = 0, evictions = 0, invalidations = 0\<rparr>"

definition task_params1 :: TaskDefinition where
  "task_params1 =
     (TaskDefinition_init ''A'' ''a'')\<lparr>parameters := [(''x'', PyInt 1), (''input'', PyStr ''data'')]\<rparr>"

definition task_dependent :: TaskDefinition where
  "task_dependent = (TaskDefinition_init ''B'' ''b'')\<lparr>depends_on := [''A'']\<rparr>"

definition result_A :: TaskResult where
  "result_A = (TaskResult_init ''A'' COMPLETED)\<lparr>result_output := Some ''ok:A''\<rparr>"

definition result_B :: TaskResult where
  "result_B = (TaskResult_init ''B'' COMPLETED)\<lparr>result_output := Some ''ok:B''\<rparr>"

definition wf_cycle_masked :: WorkflowDefinition where
  "wf_cycle_masked =
     WorkflowDefinition_init ''test''
       [(TaskDefinition_init ''A'' ''a'')\<lparr>depends_on := [''B'']\<rparr>,
        (TaskDefinition_init ''B'' ''b'')\<lparr>depends_on := [''A'']\<rparr>,
        (TaskDefinition_init ''C'' ''c'')\<lparr>depends_on := [''X'', ''Y'']\<rparr>]"

section \<open>Verified properties\<close>

subsection \<open>Invariant of the state store\<close>

lemma inv_init: "distinct (map tid (tasks wfl)) \<Longrightarrow> store_inv (StateManager_init wfl)"
  by (simp add: store_inv_def membership_def StateManager_init_def)

lemma inv_start:
  "store_inv st \<Longrightarrow> i \<in> set (pending_tasks st) \<Longrightarrow> store_inv (start_task now i st)"
  unfolding store_inv_def membership_def start_task_def Let_def TaskResult_init_def
  by (auto split: option.splits)

lemma inv_complete:
  "store_inv st \<Longrightarrow> i \<in> set (current_tasks st) \<Longrightarrow> store_inv (complete_task now i out ag st)"
  unfolding store_inv_def membership_def complete_task_def Let_def stamp_duration_def
  by (auto split: option.splits)

lemma inv_fail:
  "store_inv st \<Longrightarrow> i \<in> set (current_tasks st) \<Longrightarrow> store_inv (fail_task now i err st)"
  unfolding store_inv_def membership_def fail_task_def Let_def stamp_duration_def
  by (auto split: option.splits)

lemma inv_retry:
  "store_inv st \<Longrightarrow> i \<in> set (failed_tasks st) \<Longrightarrow> store_inv (retry_task i st)"
  unfolding store_inv_def membership_def retry_task_def Let_def
  by (auto split: option.splits)

lemma inv_skip:
  "store_inv st \<Longrightarrow> i \<in> set (pending_tasks st) \<Longrightarrow> store_inv (skip_task n1 n2 i reason st)"
  unfolding store_inv_def membership_def skip_task_def Let_def TaskResult_init_def
  by (auto split: option.splits)

lemma reachable_inv: "reachable wfl st \<Longrightarrow> store_inv st"
  by (induction rule: reachable.induct)
     (simp_all add: inv_init inv_start inv_complete inv_fail inv_retry inv_skip)

lemma skip_task_result:
  "\<exists>r. task_results (skip_task n1 n2 i reason st) i = Some r \<and> status r = SKIPPED \<and>
       error r = Some reason \<and>
       (case task_results st i of
          None \<Rightarrow> started_at r = Some n1 \<and> completed_at r = Some n2
        | Some r0 \<Rightarrow> started_at r = started_at r0 \<and> completed_at r = completed_at r0)"
  by (simp add: skip_task_def Let_def TaskResult_init_def split: option.splits)

lemma count_list_remove1:
  "i \<in> set xs \<Longrightarrow> count_list (remove1 i xs) i = count_list xs i - 1"
  by (induction xs) auto

lemma listed_once_removed:
  assumes "count_list xs i = 1"
  shows "i \<in> set xs \<and> i \<notin> set (remove1 i xs)"
proof -
  have m: "i \<in> set xs" using assms count_list_0_iff [of xs i] by auto
  then have "count_list (remove1 i xs) i = 0" using assms by (simp add: count_list_remove1)
  then have "i \<notin> set (remove1 i xs)" using count_list_0_iff [of "remove1 i xs" i] by blast
  with m show ?thesis by blast
qed

lemma skip_task_frame:
  "current_tasks (skip_task n1 n2 i reason st) = current_tasks st
   \<and> completed_tasks (skip_task n1 n2 i reason st) = completed_tasks st
   \<and> failed_tasks (skip_task n1 n2 i reason st) = failed_tasks st
   \<and> (\<forall>j. j \<noteq> i \<longrightarrow> task_results (skip_task n1 n2 i reason st) j = task_results st j)"
  by (simp add: skip_task_def Let_def)

lemma skip_task_result_exact:
  "task_results (skip_task n1 n2 i reason st) i =
     Some (case task_results st i of
             None \<Rightarrow>
               \<lparr>task_id = i, status = SKIPPED, result_output = None, error = Some reason,
                started_at = Some n1, completed_at = Some n2, duration_seconds = None,
                retry_count = 0, agent_used = None\<rparr>
           | Some r0 \<Rightarrow> r0\<lparr>status := SKIPPED, error := Some reason\<rparr>)"
  by (simp add: skip_task_def Let_def TaskResult_init_def split: option.splits)

text \<open>
  C4, as stated, fails: the primitives do not look at the other sets. \<open>fail_task\<close> on a pending
  id (what the cycle path of the DAG executor does) leaves the id pending and failed;
  \<open>retry_task\<close> on a running id (what the driver does between attempts) leaves it pending and
  current; \<open>fail_task\<close> after \<open>complete_task\<close> leaves it completed and failed.
\<close>

theorem transitions_sets_overlap_counterexample:
  "set (pending_tasks (fail_task 1 ''A'' ''e'' (StateManager_init wf_one)))
     \<inter> set (failed_tasks (fail_task 1 ''A'' ''e'' (StateManager_init wf_one))) \<noteq> {}
   \<and> set (pending_tasks (retry_task ''A'' (start_task 1 ''A'' (StateManager_init wf_one))))
     \<inter> set (current_tasks (retry_task ''A'' (start_task 1 ''A'' (StateManager_init wf_one)))) \<noteq> {}
   \<and> set (completed_tasks (fail_task 3 ''A'' ''e''
            (complete_task 2 ''A'' None None (start_task 1 ''A'' (StateManager_init wf_one)))))
     \<inter> set (failed_tasks (fail_task 3 ''A'' ''e''
            (complete_task 2 ''A'' None None (start_task 1 ''A'' (StateManager_init wf_one))))) \<noteq> {}"
  by (simp add: fail_task_def retry_task_def start_task_def complete_task_def StateManager_init_def
      wf_one_def WorkflowDefinition_init_def TaskDefinition_init_def Let_def)

text \<open>
  C4 (amended): in every state reached from the initial state of a workflow with distinct task
  ids by transitions that are each applied to an id of the set they move from, the four sets
  \<open>pending_tasks\<close>, \<open>current_tasks\<close>, \<open>completed_tasks\<close> and \<open>failed_tasks\<close> are pairwise
  disjoint, a task whose result has status \<open>skipped\<close> is in none of them, and skipping a
  pending task leaves it in \<open>task_results\<close> and in none of the four sets.
\<close>

theorem reachable_sets_disjoint:
  assumes "reachable wfl st"
  shows "set (pending_tasks st) \<inter> set (current_tasks st) = {}
       \<and> set (pending_tasks st) \<inter> set (completed_tasks st) = {}
       \<and> set (pending_tasks st) \<inter> set (failed_tasks st) = {}
       \<and> set (current_tasks st) \<inter> set (completed_tasks st) = {}
       \<and> set (current_tasks st) \<inter> set (failed_tasks st) = {}
       \<and> set (completed_tasks st) \<inter> set (failed_tasks st) = {}
       \<and> (\<forall>i r. task_results st i = Some r \<longrightarrow> status r = SKIPPED \<longrightarrow>
              i \<notin> set (pending_tasks st) \<union> set (current_tasks st)
                  \<union> set (completed_tasks st) \<union> set (failed_tasks st))
       \<and> (\<forall>i n1 n2 reason. i \<in> set (pending_tasks st) \<longrightarrow>
              task_results (skip_task n1 n2 i reason st) i \<noteq> None
              \<and> i \<notin> set (pending_tasks (skip_task n1 n2 i reason st))
                    \<union> set (current_tasks (skip_task n1 n2 i reason st))
                    \<union> set (completed_tasks (skip_task n1 n2 i reason st))
                    \<union> set (failed_tasks (skip_task n1 n2 i reason st)))"
proof -
  from assms have inv: "store_inv st" by (rule reachable_inv)
  then have d: "distinct (membership st)"
    and s: "\<And>i r. task_results st i = Some r \<Longrightarrow> status r = SKIPPED \<Longrightarrow> i \<notin> set (membership st)"
    by (auto simp: store_inv_def)
  have skip: "task_results (skip_task n1 n2 i reason st) i \<noteq> None
      \<and> i \<notin> set (membership (skip_task n1 n2 i reason st))"
    if i: "i \<in> set (pending_tasks st)" for i n1 n2 reason
  proof -
    obtain r where r: "task_results (skip_task n1 n2 i reason st) i = Some r" "status r = SKIPPED"
      using skip_task_result [of n1 n2 i reason st] by blast
    have "store_inv (skip_task n1 n2 i reason st)" using inv i by (rule inv_skip)
    with r show ?thesis by (auto simp: store_inv_def)
  qed
  from d s skip show ?thesis
    unfolding membership_def by (auto simp: disjoint_iff)
qed

theorem reachable_sets_disjoint_witness:
  "reachable wf_two (skip_task 4 4 ''B'' ''r''
      (complete_task 2 ''A'' (Some ''ok'') None (start_task 1 ''A'' (StateManager_init wf_two))))
   \<and> set (pending_tasks (skip_task 4 4 ''B'' ''r''
      (complete_task 2 ''A'' (Some ''ok'') None (start_task 1 ''A'' (StateManager_init wf_two)))))
     \<inter> set (completed_tasks (skip_task 4 4 ''B'' ''r''
      (complete_task 2 ''A'' (Some ''ok'') None (start_task 1 ''A'' (StateManager_init wf_two))))) = {}
   \<and> completed_tasks (skip_task 4 4 ''B'' ''r''
      (complete_task 2 ''A'' (Some ''ok'') None (start_task 1 ''A'' (StateManager_init wf_two)))) = [''A'']"
proof -
  have e: "wf_two = WorkflowDefinition_init ''w'' [TaskDefinition_init ''A'' ''a'', TaskDefinition_init ''B'' ''b'']"
    by (simp add: wf_two_def)
  have r0: "reachable wf_two (StateManager_init wf_two)"
    by (rule r_init) (simp add: e WorkflowDefinition_init_def TaskDefinition_init_def)
  have r1: "reachable wf_two (start_task 1 ''A'' (StateManager_init wf_two))"
    by (rule r_start [OF r0])
       (simp add: e StateManager_init_def WorkflowDefinition_init_def TaskDefinition_init_def)
  have r2: "reachable wf_two
      (complete_task 2 ''A'' (Some ''ok'') None (start_task 1 ''A'' (StateManager_init wf_two)))"
    by (rule r_complete [OF r1])
       (simp add: e start_task_def Let_def StateManager_init_def WorkflowDefinition_init_def
          TaskDefinition_init_def)
  have r3: "reachable wf_two (skip_task 4 4 ''B'' ''r''
      (complete_task 2 ''A'' (Some ''ok'') None (start_task 1 ''A'' (StateManager_init wf_two))))"
    by (rule r_skip [OF r2])
       (simp add: e complete_task_def start_task_def Let_def StateManager_init_def
          WorkflowDefinition_init_def TaskDefinition_init_def)
  have c: "completed_tasks (skip_task 4 4 ''B'' ''r''
      (complete_task 2 ''A'' (Some ''ok'') None (start_task 1 ''A'' (StateManager_init wf_two)))) = [''A'']"
    by (simp add: e skip_task_def complete_task_def start_task_def Let_def StateManager_init_def
          WorkflowDefinition_init_def TaskDefinition_init_def)
  from reachable_sets_disjoint [OF r3] r3 c show ?thesis by blast
qed

text \<open>
  C9, as stated, fails when a result already exists: \<open>skip_task\<close> then overwrites the status and
  the error only. After start (reading 1), failure (reading 3) and retry the task is pending
  again, and skipping it leaves \<open>started_at = 1\<close> and \<open>completed_at = 3\<close>; after start and retry
  alone, \<open>completed_at\<close> stays unset.
\<close>

theorem skip_task_existing_result_counterexample:
  "''A'' \<in> set (pending_tasks (retry_task ''A'' (fail_task 3 ''A'' ''boom''
        (start_task 1 ''A'' (StateManager_init wf_one)))))
   \<and> map_option (\<lambda>r. (status r, started_at r, completed_at r))
       (task_results (skip_task 5 5 ''A'' ''r'' (retry_task ''A'' (fail_task 3 ''A'' ''boom''
          (start_task 1 ''A'' (StateManager_init wf_one))))) ''A'')
     = Some (SKIPPED, Some 1, Some 3)
   \<and> ''A'' \<in> set (pending_tasks (retry_task ''A'' (start_task 1 ''A'' (StateManager_init wf_one))))
   \<and> map_option (\<lambda>r. (status r, started_at r, completed_at r))
       (task_results (skip_task 5 5 ''A'' ''r''
          (retry_task ''A'' (start_task 1 ''A'' (StateManager_init wf_one)))) ''A'')
     = Some (SKIPPED, Some 1, None)"
  by (simp add: skip_task_def fail_task_def retry_task_def start_task_def StateManager_init_def
      stamp_duration_def wf_one_def WorkflowDefinition_init_def TaskDefinition_init_def
      TaskResult_init_def Let_def)

text \<open>
  C9 (amended): for every id listed once in \<open>pending_tasks\<close>, \<open>skip_task\<close> removes it from
  \<open>pending_tasks\<close> and leaves a result with status \<open>skipped\<close> and the reason as its error. When
  no result existed, the result is a fresh one whose \<open>started_at\<close> and \<open>completed_at\<close> are both
  set, to the two clock readings the call takes (equal when the clock did not move between
  them); when a result existed, it is that result with only the status and the error
  overwritten: \<open>started_at\<close>, \<open>completed_at\<close> and every other field are as they were. The other
  three sets and the results of the other tasks are untouched.
\<close>

theorem skip_task_pending:
  assumes "count_list (pending_tasks st) i = 1"
  shows "i \<notin> set (pending_tasks (skip_task now1 now2 i reason st))
       \<and> pending_tasks (skip_task now1 now2 i reason st) = remove1 i (pending_tasks st)
       \<and> task_results (skip_task now1 now2 i reason st) i =
           Some (case task_results st i of
                   None \<Rightarrow>
                     \<lparr>task_id = i, status = SKIPPED, result_output = None, error = Some reason,
                      started_at = Some now1, completed_at = Some now2, duration_seconds = None,
                      retry_count = 0, agent_used = None\<rparr>
                 | Some r0 \<Rightarrow> r0\<lparr>status := SKIPPED, error := Some reason\<rparr>)
       \<and> current_tasks (skip_task now1 now2 i reason st) = current_tasks st
       \<and> completed_tasks (skip_task now1 now2 i reason st) = completed_tasks st
       \<and> failed_tasks (skip_task now1 now2 i reason st) = failed_tasks st
       \<and> (\<forall>j. j \<noteq> i \<longrightarrow>
              task_results (skip_task now1 now2 i reason st) j = task_results st j)"
proof -
  from assms have m: "i \<in> set (pending_tasks st)"
    and r: "i \<notin> set (remove1 i (pending_tasks st))"
    using listed_once_removed [of "pending_tasks st" i] by simp_all
  have p: "pending_tasks (skip_task now1 now2 i reason st) = remove1 i (pending_tasks st)"
    using m by (simp add: skip_task_def Let_def)
  from p r skip_task_result_exact [of now1 now2 i reason st]
    skip_task_frame [of now1 now2 i reason st]
  show ?thesis by simp
qed

theorem skip_task_pending_witness:
  "count_list (pending_tasks (StateManager_init wf_repeated)) ''A'' = 1
   \<and> pending_tasks (skip_task 7 8 ''A'' ''r'' (StateManager_init wf_repeated)) = [''B'', ''B'']
   \<and> task_results (skip_task 7 8 ''A'' ''r'' (StateManager_init wf_repeated)) ''A'' =
       Some \<lparr>task_id = ''A'', status = SKIPPED, result_output = None, error = Some ''r'',
             started_at = Some 7, completed_at = Some 8, duration_seconds = None,
             retry_count = 0, agent_used = None\<rparr>
   \<and> count_list (pending_tasks (retry_task ''A'' (fail_task 3 ''A'' ''boom''
          (start_task 1 ''A'' (StateManager_init wf_one))))) ''A'' = 1
   \<and> map_option (\<lambda>r. (status r, error r, started_at r, completed_at r, duration_seconds r,
                        retry_count r))
       (task_results (skip_task 5 6 ''A'' ''r'' (retry_task ''A'' (fail_task 3 ''A'' ''boom''
          (start_task 1 ''A'' (StateManager_init wf_one))))) ''A'')
     = Some (SKIPPED, Some ''r'', Some 1, Some 3, Some 2, 1)"
proof -
  let ?s1 = "StateManager_init wf_repeated"
  let ?s2 = "retry_task ''A'' (fail_task 3 ''A'' ''boom'' (start_task 1 ''A'' (StateManager_init wf_one)))"
  have p1: "pending_tasks ?s1 = [''A'', ''B'', ''B'']"
    by (simp add: StateManager_init_def wf_repeated_def WorkflowDefinition_init_def
        TaskDefinition_init_def)
  have c1: "count_list (pending_tasks ?s1) ''A'' = 1" by (simp add: p1)
  have n1: "task_results ?s1 ''A'' = None" by (simp add: StateManager_init_def)
  have p2: "pending_tasks ?s2 = [''A'']"
    by (simp add: retry_task_def fail_task_def start_task_def StateManager_init_def wf_one_def
        WorkflowDefinition_init_def TaskDefinition_init_def Let_def)
  have c2: "count_list (pending_tasks ?s2) ''A'' = 1" by (simp add: p2)
  have r2: "task_results ?s2 ''A'' =
      Some \<lparr>task_id = ''A'', status = RETRYING, result_output = None, error = Some ''boom'',
            started_at = Some 1, completed_at = Some 3, duration_seconds = Some 2,
            retry_count = 1, agent_used = None\<rparr>"
    by (simp add: retry_task_def fail_task_def start_task_def StateManager_init_def
        stamp_duration_def TaskResult_init_def Let_def)
  have a: "pending_tasks (skip_task 7 8 ''A'' ''r'' ?s1) = [''B'', ''B'']"
    and b: "task_results (skip_task 7 8 ''A'' ''r'' ?s1) ''A'' =
       Some \<lparr>task_id = ''A'', status = SKIPPED, result_output = None, error = Some ''r'',
             started_at = Some 7, completed_at = Some 8, duration_seconds = None,
             retry_count = 0, agent_used = None\<rparr>"
    using skip_task_pending [OF c1, of 7 8 "''r''"] by (simp_all add: p1 n1)
  have c: "map_option (\<lambda>r. (status r, error r, started_at r, completed_at r, duration_seconds r,
                        retry_count r))
       (task_results (skip_task 5 6 ''A'' ''r'' ?s2) ''A'')
     = Some (SKIPPED, Some ''r'', Some 1, Some 3, Some 2, 1)"
    using skip_task_pending [OF c2, of 5 6 "''r''"] by (simp add: r2)
  from c1 a b c2 c show ?thesis by simp
qed

subsection \<open>Strategy selector\<close>

text \<open>
  C10, as stated, fails on a condition that is the empty string: the selector tests
  \<^verbatim>\<open>condition is not None\<close>, so two independent tasks, one with \<^verbatim>\<open>condition=""\<close>, have no
  non-empty condition, no dependencies and more than one task, and are still sent to the
  conditional strategy, not the parallel one.
\<close>

theorem recommend_strategy_empty_condition_counterexample:
  "list_all (\<lambda>t. condition t = None \<or> condition t = Some '''') (tasks wf_empty_condition)
   \<and> list_all (\<lambda>t. depends_on t = []) (tasks wf_empty_condition)
   \<and> length (tasks wf_empty_condition) > 1
   \<and> recommend_strategy wf_empty_condition = CONDITIONAL"
  by (simp add: wf_empty_condition_def WorkflowDefinition_init_def TaskDefinition_init_def
      recommend_strategy_def analyze_workflow_def Let_def)

text \<open>
  C10 (amended): \<open>recommend_strategy\<close> applies the decision table in order: if any task has a
  condition other than \<^verbatim>\<open>None\<close> (the empty string included) it returns \<open>conditional\<close>; else if
  no task has dependencies and the workflow has more than one task it returns \<open>parallel\<close>;
  else if any task has dependencies it returns \<open>dag\<close>; otherwise it returns \<open>sequential\<close>.
\<close>

theorem recommend_strategy_table:
  "recommend_strategy wfl =
     (if \<exists>t \<in> set (tasks wfl). condition t \<noteq> None then CONDITIONAL
      else if (\<forall>t \<in> set (tasks wfl). depends_on t = []) \<and> length (tasks wfl) > 1 then PARALLEL
      else if \<exists>t \<in> set (tasks wfl). depends_on t \<noteq> [] then DAG
      else SEQUENTIAL)"
proof (cases "tasks wfl = []")
  case True
  then show ?thesis by (simp add: recommend_strategy_def)
next
  case False
  then show ?thesis
    by (auto simp: recommend_strategy_def analyze_workflow_def Let_def list_ex_iff)
qed

theorem recommend_strategy_table_witness:
  "recommend_strategy wf_chain = DAG \<and> recommend_strategy wf_two = PARALLEL
   \<and> recommend_strategy wf_one = SEQUENTIAL"
proof -
  have a: "tasks wf_chain =
      [TaskDefinition_init ''A'' ''a'', (TaskDefinition_init ''B'' ''b'')\<lparr>depends_on := [''A'']\<rparr>]"
    by (simp add: wf_chain_def WorkflowDefinition_init_def)
  have b: "tasks wf_two = [TaskDefinition_init ''A'' ''a'', TaskDefinition_init ''B'' ''b'']"
    by (simp add: wf_two_def WorkflowDefinition_init_def)
  have c: "tasks wf_one = [TaskDefinition_init ''A'' ''a'']"
    by (simp add: wf_one_def WorkflowDefinition_init_def)
  show ?thesis
    using recommend_strategy_table [of wf_chain] recommend_strategy_table [of wf_two]
      recommend_strategy_table [of wf_one]
    by (simp add: a b c TaskDefinition_init_def)
qed

subsection \<open>Router\<close>

lemma hd_sort_key_least:
  assumes "sort_key f xs = b # bs"
  shows "b \<in> set xs \<and> (\<forall>a \<in> set xs. f b \<le> f a)"
proof -
  have "set (b # bs) = set xs" using assms set_sort [of f xs] by simp
  moreover have "sorted (map f (b # bs))" using assms sorted_sort_key [of f xs] by simp
  ultimately show ?thesis by auto
qed

lemma sort_key_Nil_iff: "sort_key f xs = [] \<longleftrightarrow> xs = []"
  using length_sort [of f xs] by (metis length_0_conv)

lemma select_best_agent_least:
  assumes "suitable \<noteq> []"
  shows "\<exists>best. select_best_agent load suitable = Inr best
     \<and> best \<in> set (if filter (\<lambda>a. get_agent_load load (ar_agent_type a) < max_concurrent_tasks a) suitable = []
                     then suitable
                     else filter (\<lambda>a. get_agent_load load (ar_agent_type a) < max_concurrent_tasks a) suitable)
     \<and> (\<forall>a \<in> set (if filter (\<lambda>a. get_agent_load load (ar_agent_type a) < max_concurrent_tasks a) suitable = []
                     then suitable
                     else filter (\<lambda>a. get_agent_load load (ar_agent_type a) < max_concurrent_tasks a) suitable).
           sort_key_agent load best \<le> sort_key_agent load a)"
proof -
  define cands where "cands =
    (if filter (\<lambda>a. get_agent_load load (ar_agent_type a) < max_concurrent_tasks a) suitable = []
     then suitable
     else filter (\<lambda>a. get_agent_load load (ar_agent_type a) < max_concurrent_tasks a) suitable)"
  have ne: "cands \<noteq> []" using assms by (simp add: cands_def)
  then obtain b bs where s: "sort_key (sort_key_agent load) cands = b # bs"
    by (cases "sort_key (sort_key_agent load) cands") (simp_all add: sort_key_Nil_iff)
  have "select_best_agent load suitable = Inr b"
    using s by (simp add: select_best_agent_def Let_def cands_def)
  with hd_sort_key_least [OF s] show ?thesis unfolding cands_def by blast
qed

text \<open>
  C6, as stated, fails in two places. The third sort criterion is the length of the
  \<^verbatim>\<open>capabilities\<close> list, not the size of the capability set: of two idle executors of equal
  priority, one listing \<open>GENERAL\<close> three times and one listing \<open>GENERAL\<close> and \<open>TESTING\<close>, the
  router picks the first, whose capability set is the smaller. And an \<^verbatim>\<open>agent_type\<close> that is the
  empty string is not returned: the test is \<^verbatim>\<open>if task.agent_type\<close>.
\<close>

theorem route_task_counterexample:
  "route_task routing_duplicates Map.empty (TaskDefinition_init ''A'' ''a'') = Inr ''repeater''
   \<and> card (set [GENERAL, GENERAL, GENERAL]) < card (set [GENERAL, TESTING])
   \<and> route_task routing_duplicates Map.empty
       ((TaskDefinition_init ''A'' ''a'')\<lparr>agent_type := Some ''''\<rparr>) = Inr ''repeater''"
  by (simp add: route_task_def find_suitable_agents_def agent_matches_capabilities_def
      select_best_agent_def sort_key_agent_def get_agent_load_def routing_duplicates_def
      TaskDefinition_init_def Let_def)

text \<open>
  C6 (amended): \<open>route_task\<close> returns \<open>task.agent_type\<close> verbatim when it is set to a non-empty
  string; otherwise, if no configured executor's capability set is a superset of the task's
  required capabilities, it returns \<open>general-purpose\<close>; otherwise it returns the agent type of
  an executor that is least, among the suitable executors (restricted to those whose load is
  strictly below their \<open>max_concurrent_tasks\<close> whenever that restriction is non-empty), in the
  order by ascending current load, then descending priority, then descending length of the
  capability list. It never raises.
\<close>

theorem route_task_selection:
  "(\<forall>a. agent_type t = Some a \<longrightarrow> a \<noteq> [] \<longrightarrow> route_task routing load t = Inr a)
   \<and> (agent_type t = None \<or> agent_type t = Some [] \<longrightarrow>
        (if \<forall>ar \<in> set routing. \<not> set (required_capabilities t) \<subseteq> set (capabilities ar)
         then route_task routing load t = Inr ''general-purpose''
         else \<exists>best \<in> set routing.
                route_task routing load t = Inr (ar_agent_type best)
              \<and> set (required_capabilities t) \<subseteq> set (capabilities best)
              \<and> ((\<exists>ar \<in> set routing. set (required_capabilities t) \<subseteq> set (capabilities ar)
                      \<and> get_agent_load load (ar_agent_type ar) < max_concurrent_tasks ar)
                   \<longrightarrow> get_agent_load load (ar_agent_type best) < max_concurrent_tasks best)
              \<and> (\<forall>ar \<in> set routing.
                    set (required_capabilities t) \<subseteq> set (capabilities ar)
                    \<and> (get_agent_load load (ar_agent_type ar) < max_concurrent_tasks ar
                       \<or> \<not> (\<exists>ar' \<in> set routing.
                              set (required_capabilities t) \<subseteq> set (capabilities ar')
                              \<and> get_agent_load load (ar_agent_type ar') < max_concurrent_tasks ar'))
                    \<longrightarrow> get_agent_load load (ar_agent_type best) < get_agent_load load (ar_agent_type ar)
                        \<or> (get_agent_load load (ar_agent_type best) = get_agent_load load (ar_agent_type ar)
                           \<and> (ar_priority best > ar_priority ar
                              \<or> (ar_priority best = ar_priority ar
                                 \<and> length (capabilities best) \<ge> length (capabilities ar)))))))"
proof -
  let ?suit = "find_suitable_agents routing t"
  let ?av = "filter (\<lambda>a. get_agent_load load (ar_agent_type a) < max_concurrent_tasks a) ?suit"
  let ?cands = "if ?av = [] then ?suit else ?av"
  have first: "\<forall>a. agent_type t = Some a \<longrightarrow> a \<noteq> [] \<longrightarrow> route_task routing load t = Inr a"
    by (simp add: route_task_def Let_def)
  have second: "(if \<forall>ar \<in> set routing. \<not> set (required_capabilities t) \<subseteq> set (capabilities ar)
         then route_task routing load t = Inr ''general-purpose''
         else \<exists>best \<in> set routing.
                route_task routing load t = Inr (ar_agent_type best)
              \<and> set (required_capabilities t) \<subseteq> set (capabilities best)
              \<and> ((\<exists>ar \<in> set routing. set (required_capabilities t) \<subseteq> set (capabilities ar)
                      \<and> get_agent_load load (ar_agent_type ar) < max_concurrent_tasks ar)
                   \<longrightarrow> get_agent_load load (ar_agent_type best) < max_concurrent_tasks best)
              \<and> (\<forall>ar \<in> set routing.
                    set (required_capabilities t) \<subseteq> set (capabilities ar)
                    \<and> (get_agent_load load (ar_agent_type ar) < max_concurrent_tasks ar
                       \<or> \<not> (\<exists>ar' \<in> set routing.
                              set (required_capabilities t) \<subseteq> set (capabilities ar')
                              \<and> get_agent_load load (ar_agent_type ar') < max_concurrent_tasks ar'))
                    \<longrightarrow> get_agent_load load (ar_agent_type best) < get_agent_load load (ar_agent_type ar)
                        \<or> (get_agent_load load (ar_agent_type best) = get_agent_load load (ar_agent_type ar)
                           \<and> (ar_priority best > ar_priority ar
                              \<or> (ar_priority best = ar_priority ar
                                 \<and> length (capabilities best) \<ge> length (capabilities ar))))))"
    if unset: "agent_type t = None \<or> agent_type t = Some []"
  proof (cases "?suit = []")
    case True
    then have none: "\<forall>ar \<in> set routing. \<not> set (required_capabilities t) \<subseteq> set (capabilities ar)"
      by (auto simp: find_suitable_agents_def agent_matches_capabilities_def filter_empty_conv)
    have "route_task routing load t = Inr ''general-purpose''"
      using True unset by (auto simp: route_task_def Let_def)
    with none show ?thesis by simp
  next
    case False
    then have some: "\<not> (\<forall>ar \<in> set routing. \<not> set (required_capabilities t) \<subseteq> set (capabilities ar))"
      by (auto simp: find_suitable_agents_def agent_matches_capabilities_def filter_empty_conv)
    from select_best_agent_least [OF False, of load]
    obtain best where b: "select_best_agent load ?suit = Inr best"
      and mem: "best \<in> set ?cands"
      and least: "\<forall>a \<in> set ?cands. sort_key_agent load best \<le> sort_key_agent load a"
      by blast
    have r: "route_task routing load t = Inr (ar_agent_type best)"
      using False unset b by (auto simp: route_task_def Let_def)
    have suit_set: "set ?suit = {ar \<in> set routing. set (required_capabilities t) \<subseteq> set (capabilities ar)}"
      by (auto simp: find_suitable_agents_def agent_matches_capabilities_def)
    have av_set: "set ?av = {ar \<in> set routing. set (required_capabilities t) \<subseteq> set (capabilities ar)
        \<and> get_agent_load load (ar_agent_type ar) < max_concurrent_tasks ar}"
      using suit_set by auto
    have av_empty: "?av = [] \<longleftrightarrow> \<not> (\<exists>ar \<in> set routing. set (required_capabilities t) \<subseteq> set (capabilities ar)
        \<and> get_agent_load load (ar_agent_type ar) < max_concurrent_tasks ar)"
      using av_set by (metis (no_types, lifting) empty_Collect_eq set_empty)
    have cands_set: "set ?cands = {ar \<in> set routing. set (required_capabilities t) \<subseteq> set (capabilities ar)
        \<and> (get_agent_load load (ar_agent_type ar) < max_concurrent_tasks ar
           \<or> \<not> (\<exists>ar' \<in> set routing. set (required_capabilities t) \<subseteq> set (capabilities ar')
                  \<and> get_agent_load load (ar_agent_type ar') < max_concurrent_tasks ar'))}"
    proof (cases "?av = []")
      case True
      with av_empty suit_set show ?thesis by auto
    next
      case False
      with av_empty av_set show ?thesis by auto
    qed
    have b_in: "best \<in> set routing" "set (required_capabilities t) \<subseteq> set (capabilities best)"
      using mem cands_set by auto
    have b_av: "(\<exists>ar \<in> set routing. set (required_capabilities t) \<subseteq> set (capabilities ar)
                      \<and> get_agent_load load (ar_agent_type ar) < max_concurrent_tasks ar)
                   \<longrightarrow> get_agent_load load (ar_agent_type best) < max_concurrent_tasks best"
      using mem cands_set by auto
    have ord: "get_agent_load load (ar_agent_type best) < get_agent_load load (ar_agent_type ar)
                \<or> (get_agent_load load (ar_agent_type best) = get_agent_load load (ar_agent_type ar)
                   \<and> (ar_priority best > ar_priority ar
                      \<or> (ar_priority best = ar_priority ar
                         \<and> length (capabilities best) \<ge> length (capabilities ar))))"
      if "ar \<in> set ?cands" for ar
    proof -
      from least that have "sort_key_agent load best \<le> sort_key_agent load ar" by blast
      then show ?thesis
        by (auto simp: sort_key_agent_def less_eq_prod_def less_prod_def)
    qed
    from some r b_in b_av ord cands_set show ?thesis
      by (simp del: split_paired_All) blast
  qed
  from first second show ?thesis by blast
qed

theorem route_task_selection_witness:
  "route_task routing_default Map.empty ((TaskDefinition_init ''A'' ''a'')\<lparr>agent_type := Some ''x''\<rparr>)
     = Inr ''x''
   \<and> route_task routing_default Map.empty (TaskDefinition_init ''A'' ''a'') = Inr ''code-analyzer''"
proof -
  have a: "agent_type ((TaskDefinition_init ''A'' ''a'')\<lparr>agent_type := Some ''x''\<rparr>) = Some ''x''"
    by simp
  have "route_task routing_default Map.empty
      ((TaskDefinition_init ''A'' ''a'')\<lparr>agent_type := Some ''x''\<rparr>) = Inr ''x''"
    using route_task_selection
      [of "(TaskDefinition_init ''A'' ''a'')\<lparr>agent_type := Some ''x''\<rparr>" routing_default Map.empty] a
    by simp
  moreover have "route_task routing_default Map.empty (TaskDefinition_init ''A'' ''a'')
      = Inr ''code-analyzer''"
    by (simp add: route_task_def find_suitable_agents_def agent_matches_capabilities_def
        select_best_agent_def sort_key_agent_def get_agent_load_def routing_default_def
        TaskDefinition_init_def Let_def)
  ultimately show ?thesis by simp
qed

subsection \<open>Per-task driver\<close>

lemma route_task_total: "\<exists>a. route_task routing load t = Inr a"
proof (cases "find_suitable_agents routing t = []")
  case True
  then show ?thesis by (auto simp: route_task_def Let_def split: option.splits)
next
  case False
  from select_best_agent_least [OF False, of load]
  obtain best where "select_best_agent load (find_suitable_agents routing t) = Inr best"
    by blast
  with False show ?thesis by (auto simp: route_task_def Let_def split: option.splits)
qed

lemma retry_task_result:
  "task_results st i = Some r \<Longrightarrow>
   task_results (retry_task i st) i = Some (r\<lparr>status := RETRYING, retry_count := retry_count r + 1\<rparr>)"
  by (simp add: retry_task_def Let_def)

lemma fail_task_result:
  "task_results st i = Some r \<Longrightarrow>
   \<exists>r'. task_results (fail_task now i err st) i = Some r' \<and> status r' = FAILED
       \<and> error r' = Some err \<and> retry_count r' = retry_count r
       \<and> i \<in> set (failed_tasks (fail_task now i err st))"
  by (simp add: fail_task_def Let_def stamp_duration_def split: option.splits)

lemma start_task_result:
  "\<exists>r. task_results (start_task now i st) i = Some r \<and> status r = RUNNING
      \<and> retry_count r = (case task_results st i of None \<Rightarrow> 0 | Some r0 \<Rightarrow> retry_count r0)"
  by (simp add: start_task_def Let_def TaskResult_init_def split: option.splits)

lemma failing_trace_step:
  "k < max_retries (retry_config t) \<Longrightarrow>
   failing_trace t k =
     [Invoke (tid t), Retry (tid t), Sleep (backoff_delay (retry_config t) k)] @ failing_trace t (Suc k)"
  by (simp add: failing_trace_def upt_conv_Cons)

lemma failing_trace_last:
  "k \<ge> max_retries (retry_config t) \<Longrightarrow> failing_trace t k = [Invoke (tid t)]"
  by (simp add: failing_trace_def)

lemma retry_loop_failing:
  assumes "\<And>n. \<exists>m. ag n t a = Inl m"
    and "k \<le> max_retries (retry_config t)"
    and "task_results (wstate w) (tid t) = Some r"
  shows "invocations (retry_loop clk ag t a k (backoff_delay (retry_config t) k) w)
           = invocations w + (max_retries (retry_config t) - k) + 1
       \<and> trace (retry_loop clk ag t a k (backoff_delay (retry_config t) k) w)
           = trace w @ failing_trace t k
       \<and> (\<exists>r'. task_results (wstate (retry_loop clk ag t a k (backoff_delay (retry_config t) k) w)) (tid t)
                  = Some r'
              \<and> status r' = FAILED
              \<and> retry_count r' = retry_count r + (max_retries (retry_config t) - k)
              \<and> ag (invocations w + (max_retries (retry_config t) - k)) t a = Inl (the (error r')))
       \<and> tid t \<in> set (failed_tasks (wstate (retry_loop clk ag t a k (backoff_delay (retry_config t) k) w)))"
  using assms(2,3)
proof (induction "max_retries (retry_config t) - k" arbitrary: k w r)
  case 0
  then have k: "k = max_retries (retry_config t)" by simp
  obtain m where m: "ag (invocations w) t a = Inl m" using assms(1) by blast
  let ?w1 = "w\<lparr>invocations := invocations w + 1, trace := trace w @ [Invoke (tid t)]\<rparr>"
  have loop: "retry_loop clk ag t a k (backoff_delay (retry_config t) k) w =
      ?w1\<lparr>wstate := fail_task (clk (ticks ?w1)) (tid t) m (wstate ?w1),
          ticks := ticks ?w1 + 1,
          agent_load := decrement_agent_load a (agent_load ?w1)\<rparr>"
    using k m by (subst retry_loop.simps) (simp add: Let_def)
  from fail_task_result [OF "0.prems"(2), of "clk (ticks w)" m]
  obtain r' where r': "task_results (fail_task (clk (ticks w)) (tid t) m (wstate w)) (tid t) = Some r'"
    "status r' = FAILED" "error r' = Some m" "retry_count r' = retry_count r"
    "tid t \<in> set (failed_tasks (fail_task (clk (ticks w)) (tid t) m (wstate w)))"
    by blast
  show ?case
    unfolding loop using r' k m by (simp add: failing_trace_last)
next
  case (Suc d)
  then have k: "k < max_retries (retry_config t)" by simp
  obtain m where m: "ag (invocations w) t a = Inl m" using assms(1) by blast
  let ?w1 = "w\<lparr>invocations := invocations w + 1, trace := trace w @ [Invoke (tid t)]\<rparr>"
  let ?w2 = "?w1\<lparr>wstate := retry_task (tid t) (wstate ?w1),
                  trace := trace ?w1 @ [Retry (tid t), Sleep (backoff_delay (retry_config t) k)]\<rparr>"
  have loop: "retry_loop clk ag t a k (backoff_delay (retry_config t) k) w =
      retry_loop clk ag t a (Suc k) (backoff_delay (retry_config t) (Suc k)) ?w2"
    using k m by (subst retry_loop.simps) (simp add: Let_def)
  have d: "d = max_retries (retry_config t) - Suc k" using Suc.hyps(2) by simp
  have k': "Suc k \<le> max_retries (retry_config t)" using k by simp
  have res: "task_results (wstate ?w2) (tid t)
      = Some (r\<lparr>status := RETRYING, retry_count := retry_count r + 1\<rparr>)"
    using retry_task_result [OF Suc.prems(2)] by simp
  from Suc.hyps(1) [OF d k' res]
  show ?case
    unfolding loop using k by (simp add: failing_trace_step Suc_diff_Suc)
qed

text \<open>
  C7: when the agent fails on every invocation, the driver invokes it exactly
  \<open>max_retries + 1\<close> times and calls \<open>retry_task\<close> exactly \<open>max_retries\<close> times, each followed by
  a sleep of \<open>d\<^sub>k\<close> with \<open>d\<^sub>0 = initial_delay\<close> and \<open>d\<^bsub>k+1\<^esub> = min (d\<^sub>k * backoff_multiplier) max_delay\<close>;
  the task then has a result with status \<open>failed\<close> and is in \<open>failed_tasks\<close>. With
  \<open>max_retries = 0\<close> the trace is the single invocation.
\<close>

theorem execute_task_failing_agent:
  assumes "\<And>n a. \<exists>m. ag n t a = Inl m"
  shows "\<exists>w'. execute_task clk ag routing t w = Inr w'
     \<and> invocations w' = invocations w + max_retries (retry_config t) + 1
     \<and> trace w' = trace w @ failing_trace t 0
     \<and> length (filter (\<lambda>e. e = Retry (tid t)) (failing_trace t 0)) = max_retries (retry_config t)
     \<and> length (filter (\<lambda>e. e = Invoke (tid t)) (failing_trace t 0)) = max_retries (retry_config t) + 1
     \<and> [d. Sleep d \<leftarrow> failing_trace t 0]
         = map (backoff_delay (retry_config t)) [0 ..< max_retries (retry_config t)]
     \<and> (max_retries (retry_config t) = 0 \<longrightarrow> failing_trace t 0 = [Invoke (tid t)])
     \<and> (\<exists>r. task_results (wstate w') (tid t) = Some r \<and> status r = FAILED
            \<and> retry_count r = (case task_results (wstate w) (tid t) of
                                 None \<Rightarrow> 0 | Some r0 \<Rightarrow> retry_count r0)
                               + max_retries (retry_config t))
     \<and> tid t \<in> set (failed_tasks (wstate w'))"
proof -
  obtain a where a: "route_task routing (agent_load w) t = Inr a"
    using route_task_total by blast
  let ?w1 = "w\<lparr>agent_load := increment_agent_load a (agent_load w)\<rparr>"
  let ?w2 = "?w1\<lparr>wstate := start_task (clk (ticks ?w1)) (tid t) (wstate ?w1), ticks := ticks ?w1 + 1\<rparr>"
  let ?w' = "retry_loop clk ag t a 0 (initial_delay (retry_config t)) ?w2"
  have ex: "execute_task clk ag routing t w = Inr ?w'"
    using a by (simp add: execute_task_def Let_def)
  obtain r0 where r0: "task_results (wstate ?w2) (tid t) = Some r0"
    and rc0: "retry_count r0 = (case task_results (wstate w) (tid t) of
                                  None \<Rightarrow> 0 | Some r0 \<Rightarrow> retry_count r0)"
    using start_task_result [of "clk (ticks w)" "tid t" "wstate w"] by auto
  have fails: "\<And>n. \<exists>m. ag n t a = Inl m" using assms by blast
  from retry_loop_failing [of ag t a 0 ?w2 r0 clk, OF fails _ r0]
  have loop: "invocations ?w' = invocations w + max_retries (retry_config t) + 1"
    "trace ?w' = trace w @ failing_trace t 0"
    "\<exists>r'. task_results (wstate ?w') (tid t) = Some r' \<and> status r' = FAILED
          \<and> retry_count r' = retry_count r0 + max_retries (retry_config t)"
    "tid t \<in> set (failed_tasks (wstate ?w'))"
    by auto
  have cnt: "length (filter (\<lambda>e. e = Retry (tid t))
        (concat (map (\<lambda>j. [Invoke (tid t), Retry (tid t), Sleep (backoff_delay (retry_config t) j)]) js)))
      = length js
    \<and> length (filter (\<lambda>e. e = Invoke (tid t))
        (concat (map (\<lambda>j. [Invoke (tid t), Retry (tid t), Sleep (backoff_delay (retry_config t) j)]) js)))
      = length js
    \<and> [d. Sleep d \<leftarrow>
         concat (map (\<lambda>j. [Invoke (tid t), Retry (tid t), Sleep (backoff_delay (retry_config t) j)]) js)]
      = map (backoff_delay (retry_config t)) js" for js
    by (induction js) simp_all
  have t1: "length (filter (\<lambda>e. e = Retry (tid t)) (failing_trace t 0)) = max_retries (retry_config t)"
    and t2: "length (filter (\<lambda>e. e = Invoke (tid t)) (failing_trace t 0)) = max_retries (retry_config t) + 1"
    and t3: "[d. Sleep d \<leftarrow> failing_trace t 0]
         = map (backoff_delay (retry_config t)) [0 ..< max_retries (retry_config t)]"
    using cnt [of "[0 ..< max_retries (retry_config t)]"] by (simp_all add: failing_trace_def)
  have t4: "max_retries (retry_config t) = 0 \<longrightarrow> failing_trace t 0 = [Invoke (tid t)]"
    by (simp add: failing_trace_def)
  from ex loop rc0 t1 t2 t3 t4 show ?thesis by auto
qed

theorem execute_task_failing_agent_witness:
  "map_sum fst (\<lambda>w. (invocations w, trace w, failed_tasks (wstate w),
                      map_option status (task_results (wstate w) ''A'')))
     (execute_task clock0 agent_failing routing_default task_no_retry
        (world0\<lparr>wstate := StateManager_init wf_one\<rparr>))
   = Inr (1, [Invoke ''A''], [''A''], Some FAILED)"
proof -
  have f: "\<And>n a. \<exists>m. agent_failing n task_no_retry a = Inl m"
    by (simp add: agent_failing_def)
  have m: "max_retries (retry_config task_no_retry) = 0" "tid task_no_retry = ''A''"
    by (simp_all add: task_no_retry_def TaskDefinition_init_def)
  have i: "invocations (world0\<lparr>wstate := StateManager_init wf_one\<rparr>) = 0"
    "trace (world0\<lparr>wstate := StateManager_init wf_one\<rparr>) = []"
    by (simp_all add: world0_def)
  from execute_task_failing_agent [of agent_failing task_no_retry clock0 routing_default
      "world0\<lparr>wstate := StateManager_init wf_one\<rparr>", OF f]
  obtain w' where w': "execute_task clock0 agent_failing routing_default task_no_retry
        (world0\<lparr>wstate := StateManager_init wf_one\<rparr>) = Inr w'"
    "invocations w' = 1" "trace w' = [Invoke ''A'']"
    "\<exists>r. task_results (wstate w') ''A'' = Some r \<and> status r = FAILED"
    "''A'' \<in> set (failed_tasks (wstate w'))"
    unfolding m i by (auto simp: failing_trace_def m)
  have fl: "failed_tasks (wstate w') = [''A'']"
    using w'(1)
    by (subst (asm) execute_task_def)
       (auto simp: route_task_def find_suitable_agents_def agent_matches_capabilities_def
          select_best_agent_def sort_key_agent_def get_agent_load_def routing_default_def
          task_no_retry_def TaskDefinition_init_def Let_def retry_loop.simps agent_failing_def
          fail_task_def start_task_def StateManager_init_def world0_def wf_one_def
          WorkflowDefinition_init_def increment_agent_load_def)
  from w' fl show ?thesis by auto
qed

subsection \<open>Workflow status\<close>

text \<open>
  C1, as stated, fails: no code path sets the status \<open>partial\<close>. Under the sequential strategy
  with \<open>continue_on_failure\<close>, task \<open>A\<close> completing and task \<open>B\<close> failing, the workflow ends
  \<open>completed\<close>, although a task failed.
\<close>

theorem execute_workflow_partial_counterexample:
  "continue_on_failure wf_continue
   \<and> completed_tasks (wstate (execute_workflow
         (SequentialExecutor_execute clock0 agent_A_only routing_default wf_continue)
         clock0 wf_continue world0)) = [''A'']
   \<and> failed_tasks (wstate (execute_workflow
         (SequentialExecutor_execute clock0 agent_A_only routing_default wf_continue)
         clock0 wf_continue world0)) = [''B'']
   \<and> wf_status (wstate (execute_workflow
         (SequentialExecutor_execute clock0 agent_A_only routing_default wf_continue)
         clock0 wf_continue world0)) = WCompleted"
  by code_simp

text \<open>
  C1 (amended): for every execution of \<open>execute_workflow\<close> whose executor returns (no workflow
  timeout, no exception), the final workflow status is \<open>failed\<close> iff \<open>continue_on_failure\<close> is
  false and at least one task is in \<open>failed_tasks\<close>, and \<open>completed\<close> otherwise; it is never
  \<open>partial\<close>. The task sets and results are those the executor left.
\<close>

theorem execute_workflow_status:
  assumes "executor (w\<lparr>wstate := start_workflow (clk (ticks w)) (StateManager_init wfl),
                        ticks := ticks w + 1\<rparr>) = Inr w2"
  shows "wf_status (wstate (execute_workflow executor clk wfl w))
           = (if failed_tasks (wstate w2) \<noteq> [] \<and> \<not> continue_on_failure wfl
              then WFailed else WCompleted)
       \<and> wf_status (wstate (execute_workflow executor clk wfl w)) \<noteq> WPartial
       \<and> task_results (wstate (execute_workflow executor clk wfl w)) = task_results (wstate w2)
       \<and> failed_tasks (wstate (execute_workflow executor clk wfl w)) = failed_tasks (wstate w2)
       \<and> completed_tasks (wstate (execute_workflow executor clk wfl w))
           = completed_tasks (wstate w2)"
  using assms
  by (simp add: execute_workflow_def finish_workflow_def has_failed_tasks_def
      fail_workflow_def complete_workflow_def Let_def)

theorem execute_workflow_status_witness:
  "wf_status (wstate (execute_workflow
       (SequentialExecutor_execute clock0 agent_B_only routing_default wf_fail_fast)
       clock0 wf_fail_fast world0)) = WFailed
   \<and> \<not> continue_on_failure wf_fail_fast"
proof -
  let ?ex = "SequentialExecutor_execute clock0 agent_B_only routing_default wf_fail_fast"
  let ?w1 = "world0\<lparr>wstate := start_workflow (clock0 (ticks world0)) (StateManager_init wf_fail_fast),
                    ticks := ticks world0 + 1\<rparr>"
  have run: "(case ?ex ?w1 of Inr w2 \<Rightarrow> failed_tasks (wstate w2) = [''A''] | Inl e \<Rightarrow> False)"
    by code_simp
  then obtain w2 where w2: "?ex ?w1 = Inr w2" and f: "failed_tasks (wstate w2) = [''A'']"
    by (cases "?ex ?w1") auto
  have c: "\<not> continue_on_failure wf_fail_fast" by code_simp
  from execute_workflow_status [of ?ex world0 clock0 wf_fail_fast w2, OF w2] f c
  show ?thesis by simp
qed

subsection \<open>The driver and the result cache\<close>

lemma retry_loop_invokes:
  "k \<le> max_retries (retry_config t) \<Longrightarrow>
   invocations w < invocations (retry_loop clk ag t a k d w)"
proof (induction "max_retries (retry_config t) - k" arbitrary: k d w)
  case 0
  then have k: "k = max_retries (retry_config t)" by simp
  show ?case
    by (subst retry_loop.simps) (simp add: k Let_def split: sum.splits)
next
  case (Suc n)
  then have k: "k < max_retries (retry_config t)" by simp
  show ?case
  proof (cases "ag (invocations w) t a")
    case (Inr out)
    then show ?thesis
      using k by (subst retry_loop.simps) (simp add: Let_def)
  next
    case (Inl m)
    let ?w2 = "w\<lparr>invocations := invocations w + 1, trace := trace w @ [Invoke (tid t)],
                  wstate := retry_task (tid t) (wstate w),
                  trace := (trace w @ [Invoke (tid t)]) @ [Retry (tid t), Sleep d]\<rparr>"
    have loop: "retry_loop clk ag t a k d w =
        retry_loop clk ag t a (Suc k)
          (min (d * backoff_multiplier (retry_config t)) (max_delay (retry_config t))) ?w2"
      using k Inl by (subst retry_loop.simps) (simp add: Let_def)
    have n: "n = max_retries (retry_config t) - Suc k" using Suc.hyps(2) by simp
    have k': "Suc k \<le> max_retries (retry_config t)" using k by simp
    have "invocations ?w2 < invocations (retry_loop clk ag t a (Suc k)
          (min (d * backoff_multiplier (retry_config t)) (max_delay (retry_config t))) ?w2)"
      using n k' by (rule Suc.hyps(1))
    then show ?thesis
      unfolding loop by simp
  qed
qed

text \<open>
  C2: the driver of the coordinator holds no cache and never calls \<open>cache.get\<close> or \<open>cache.put\<close>:
  whatever the state, every run of the driver invokes the agent substrate at least once, so a
  second run of an identical workflow cannot run with zero invocations.
\<close>

theorem execute_task_always_invokes:
  "\<exists>w'. execute_task clk ag routing t w = Inr w' \<and> invocations w < invocations w'"
proof -
  obtain a where a: "route_task routing (agent_load w) t = Inr a"
    using route_task_total by blast
  have "invocations w <
      invocations (retry_loop clk ag t a 0 (initial_delay (retry_config t))
        (w\<lparr>agent_load := increment_agent_load a (agent_load w),
           wstate := start_task (clk (ticks w)) (tid t) (wstate w), ticks := ticks w + 1\<rparr>))"
    using retry_loop_invokes [of 0 t "w\<lparr>agent_load := increment_agent_load a (agent_load w),
           wstate := start_task (clk (ticks w)) (tid t) (wstate w), ticks := ticks w + 1\<rparr>"
           clk ag a "initial_delay (retry_config t)"]
    by simp
  with a show ?thesis by (simp add: execute_task_def Let_def)
qed

subsection \<open>Cycle path of the DAG executor\<close>

text \<open>
  C3: on the two-task cycle of the repository's own test
  (\<^verbatim>\<open>test_dag_executor_with_circular_dependency\<close>) the sort raises, and the cycle path calls
  \<open>fail_task\<close> on tasks that were never started: both ids are appended to \<open>failed_tasks\<close> and stay
  in \<open>pending_tasks\<close>, and no \<open>TaskResult\<close> is recorded, so none carries the cycle message. The
  coordinator then fails the workflow when \<open>continue_on_failure\<close> is false and completes it
  otherwise. A cycle is not even detected when unknown dependency ids make up the count: with
  \<open>A\<close> and \<open>B\<close> depending on each other and \<open>C\<close> depending on the undeclared ids \<open>X\<close> and
  \<open>Y\<close>, the sort returns three ids for three tasks and the scheduling loop is entered.
\<close>

theorem dag_cycle_records_no_result:
  "topological_sort wf_cycle = Inl (ValueError ''Circular dependency detected in workflow'')
   \<and> (case DAGExecutor_validate clock0 wf_cycle
            (world0\<lparr>wstate := start_workflow 0 (StateManager_init wf_cycle), ticks := 1\<rparr>) of
         CycleReturn w' \<Rightarrow>
           task_results (wstate w') ''task1'' = None
           \<and> task_results (wstate w') ''task2'' = None
           \<and> failed_tasks (wstate w') = [''task1'', ''task2'']
           \<and> pending_tasks (wstate w') = [''task1'', ''task2'']
           \<and> get_task_status (wstate w') ''task1'' = PENDING
           \<and> wf_status (finish_workflow 9 wf_cycle (wstate w')) = WFailed
           \<and> wf_status (finish_workflow 9 (wf_cycle\<lparr>continue_on_failure := True\<rparr>) (wstate w'))
               = WCompleted
       | Raises e w' \<Rightarrow> False
       | Schedule w' \<Rightarrow> False)
   \<and> topological_sort wf_cycle_masked = Inr [''X'', ''Y'', ''C'']"
  by code_simp

subsection \<open>Cache key\<close>

lemma dict_reorder:
  assumes "distinct (map fst xs)" and "distinct (map fst ys)" and "map_of xs = map_of ys"
  shows "sort_key fst xs = sort_key fst ys"
proof -
  have s: "set xs = set ys" using assms by (simp add: map_of_inject_set)
  have dx: "distinct xs" and dy: "distinct ys" and inj: "inj_on fst (set xs)"
    using assms(1,2) by (auto simp: distinct_map)
  from dx dy s have "mset xs = mset ys" by (simp add: set_eq_iff_mset_eq_distinct)
  then show ?thesis using inj by (rule sort_key_eq_sort_key)
qed

lemma dumps_dict_reorder:
  assumes "distinct (map fst xs)" and "distinct (map fst ys)" and "map_of xs = map_of ys"
  shows "dumps (PyDict xs) = dumps (PyDict ys)"
  by (simp only: dumps.simps dict_reorder [OF assms])

lemma insort_key_map:
  "insort_key f (h x) (map h xs) = map h (insort_key (\<lambda>a. f (h a)) x xs)"
  by (induction xs) simp_all

lemma sort_key_map: "sort_key f (map h xs) = map h (sort_key (\<lambda>a. f (h a)) xs)"
  by (induction xs) (simp_all add: insort_key_map)

lemma dumps_dict_items:
  "dumps (PyDict kvs) =
     (case collect (map (\<lambda>p. case snd p of
                               Inl e \<Rightarrow> Inl e
                             | Inr s \<Rightarrow> Inr (encode_basestring_ascii (fst p) @ '': '' @ s))
                      (sort_key fst (map (\<lambda>kv. (fst kv, dumps (snd kv))) kvs))) of
        Inl e \<Rightarrow> Inl e
      | Inr parts \<Rightarrow> Inr (''{'' @ join '', '' parts @ ''}''))"
proof -
  have "sort_key fst (map (\<lambda>kv. (fst kv, dumps (snd kv))) kvs)
      = map (\<lambda>kv. (fst kv, dumps (snd kv))) (sort_key fst kvs)"
    by (simp only: sort_key_map fst_conv)
  then show ?thesis
    by (simp only: dumps.simps map_map comp_def fst_conv snd_conv)
qed

lemma dumps_dict_cong:
  assumes "map (\<lambda>kv. (fst kv, dumps (snd kv))) xs = map (\<lambda>kv. (fst kv, dumps (snd kv))) ys"
  shows "dumps (PyDict xs) = dumps (PyDict ys)"
  by (simp only: dumps_dict_items assms)

lemma generate_parameters_cong:
  assumes "dumps (PyDict ps) = dumps (PyDict (parameters t))"
  shows "generate H (t\<lparr>parameters := ps\<rparr>) deps inc = generate H t deps inc"
proof -
  have "dumps (key_components (t\<lparr>parameters := ps\<rparr>) deps inc) = dumps (key_components t deps inc)"
    unfolding key_components_def
    by (rule dumps_dict_cong) (simp add: assms dep_outputs_def del: dumps.simps split: option.splits)
  then show ?thesis by (simp add: generate_def)
qed

text \<open>
  C8: the key is a function of the task and the dependency results; two task definitions that
  differ only in the order of the items of \<open>parameters\<close> (the same dictionary) get the same
  key; and with \<open>include_dependencies = False\<close> the key does not depend on the dependency
  results.
\<close>

theorem generate_deterministic:
  assumes "distinct (map fst (parameters t))" and "distinct (map fst ps)"
    and "map_of ps = map_of (parameters t)"
  shows "generate sha256_hex (t\<lparr>parameters := ps\<rparr>) deps inc = generate sha256_hex t deps inc
       \<and> generate sha256_hex t deps False = generate sha256_hex t deps' False"
proof -
  have "dumps (PyDict ps) = dumps (PyDict (parameters t))"
    using assms(2,1,3) by (rule dumps_dict_reorder)
  then have "generate sha256_hex (t\<lparr>parameters := ps\<rparr>) deps inc = generate sha256_hex t deps inc"
    by (rule generate_parameters_cong)
  moreover have "key_components t deps False = key_components t deps' False"
    by (simp add: key_components_def split: option.splits)
  then have "generate sha256_hex t deps False = generate sha256_hex t deps' False"
    by (simp only: generate_def)
  ultimately show ?thesis by simp
qed

theorem generate_deterministic_witness:
  "generate digest0
      (task_params1\<lparr>parameters := [(''input'', PyStr ''data''), (''x'', PyInt 1)]\<rparr>) None True
     = generate digest0 task_params1 None True
   \<and> generate digest0 task_params1 None False
     = generate digest0 task_params1 (Some [(''D'', result_A)]) False"
proof -
  have p: "parameters task_params1 = [(''x'', PyInt 1), (''input'', PyStr ''data'')]"
    by (simp add: task_params1_def)
  have d1: "distinct (map fst (parameters task_params1))" by (simp add: p)
  have d2: "distinct (map fst [(''input'', PyStr ''data''), (''x'', PyInt 1)])" by simp
  have m: "map_of [(''input'', PyStr ''data''), (''x'', PyInt 1)] = map_of (parameters task_params1)"
    by (auto simp: p fun_eq_iff)
  from generate_deterministic [OF d1 d2 m, of digest0 None True "Some [(''D'', result_A)]"]
  show ?thesis by simp
qed

subsection \<open>Dependency invalidation\<close>

lemma collect_Inr: "collect xs = Inr vs \<Longrightarrow> xs = map Inr vs"
proof (induction xs arbitrary: vs)
  case Nil
  then show ?case by simp
next
  case (Cons x xs)
  then show ?case by (cases x) (auto split: sum.splits)
qed

lemma generate_length:
  assumes "\<And>s. length (H s) = 64" and "generate H t deps inc = Inr k"
  shows "length k = 64"
  using assms by (auto simp: generate_def split: sum.splits)

lemma put_dep_keys_length:
  assumes "\<And>s. length (H s) = 64" and "put_dep_keys H t deps inc = Inr ks"
  shows "list_all (\<lambda>d. length d = 64) ks"
proof (cases "\<exists>ds. deps = Some ds \<and> inc \<and> ds \<noteq> []")
  case False
  with assms(2) have "ks = []"
    by (cases deps) (auto simp: put_dep_keys_def split: if_splits)
  then show ?thesis by simp
next
  case True
  then obtain ds where ds: "deps = Some ds" "inc" "ds \<noteq> []" by blast
  define ids where "ids = filter (\<lambda>dep_id. map_of ds dep_id \<noteq> None) (depends_on t)"
  have "collect (map (\<lambda>dep_id. generate H (TaskDefinition_init dep_id []) None False) ids) = Inr ks"
    using assms(2) ds by (simp add: put_dep_keys_def ids_def)
  then have eq: "map (\<lambda>dep_id. generate H (TaskDefinition_init dep_id []) None False) ids = map Inr ks"
    by (rule collect_Inr)
  have "length k = 64" if "k \<in> set ks" for k
  proof -
    from that have "Inr k \<in> set (map (Inr :: string \<Rightarrow> error + string) ks)" by simp
    then have "Inr k \<in> set (map (\<lambda>dep_id. generate H (TaskDefinition_init dep_id []) None False) ids)"
      by (simp only: eq)
    then obtain i where "generate H (TaskDefinition_init i []) None False = Inr k"
      by auto
    with assms(1) show ?thesis by (rule generate_length)
  qed
  then show ?thesis by (simp add: list_all_iff)
qed

lemma full_dict_del: "full_dependency_keys m \<Longrightarrow> full_dependency_keys (dict_del k m)"
  by (auto simp: full_dependency_keys_def dict_del_def list_all_iff)

lemma full_dict_set:
  "full_dependency_keys m \<Longrightarrow> list_all (\<lambda>d. length d = 64) (dependency_keys e) \<Longrightarrow>
   full_dependency_keys (dict_set k e m)"
  by (induction m) (auto simp: full_dependency_keys_def)

lemma map_of_dict_set: "map_of (dict_set k v d) k = Some v"
  by (induction d) auto

lemma full_evict_lru:
  "full_dependency_keys (memory_cache c) \<Longrightarrow> full_dependency_keys (memory_cache (evict_lru c))"
  by (cases "memory_cache c = []") (simp_all add: evict_lru_def Let_def full_dict_del)

lemma full_store_in_memory:
  assumes "full_dependency_keys (memory_cache c)" and "list_all (\<lambda>d. length d = 64) ks"
  shows "full_dependency_keys (memory_cache (store_in_memory n1 n2 k r ks c))
   \<and> map_option (\<lambda>e. (entry_result e, dependency_keys e))
        (map_of (memory_cache (store_in_memory n1 n2 k r ks c)) k) = Some (r, ks)"
proof -
  define c1 where "c1 = (if length (memory_cache c) \<ge> max_size (config c) then evict_lru c else c)"
  define e where "e = \<lparr>entry_key = k, entry_result = r, created_at = n1, accessed_at = n2,
                   access_count = 0, dependency_keys = ks\<rparr>"
  have m: "memory_cache (store_in_memory n1 n2 k r ks c) = dict_set k e (memory_cache c1)"
    by (simp add: store_in_memory_def Let_def c1_def e_def)
  have "full_dependency_keys (memory_cache c1)"
    using assms(1) by (simp add: c1_def full_evict_lru)
  moreover have "list_all (\<lambda>d. length d = 64) (dependency_keys e)"
    using assms(2) by (simp add: e_def)
  ultimately have "full_dependency_keys (dict_set k e (memory_cache c1))"
    by (rule full_dict_set)
  moreover have "map_of (dict_set k e (memory_cache c1)) k = Some e"
    by (rule map_of_dict_set)
  ultimately show ?thesis unfolding m by (simp add: e_def)
qed

lemma invalidate_dependents_nothing:
  assumes "\<And>s. length (H s) = 64" and "full_dependency_keys (memory_cache c)"
  shows "invalidate_dependents H i c = (0, c)"
proof -
  have len: "length (take 16 (H i)) = 16" using assms(1) [of i] by simp
  have "take 16 (H i) \<notin> set (dependency_keys (snd kv))" if "kv \<in> set (memory_cache c)" for kv
  proof
    assume "take 16 (H i) \<in> set (dependency_keys (snd kv))"
    with assms(2) that have "length (take 16 (H i)) = 64"
      unfolding full_dependency_keys_def list_all_iff by blast
    with len show False by simp
  qed
  then have "filter (\<lambda>kv. take 16 (H i) \<in> set (dependency_keys (snd kv))) (memory_cache c) = []"
    by (simp add: filter_empty_conv)
  then show ?thesis by (simp add: invalidate_dependents_def Let_def)
qed

text \<open>
  C5: the dependency keys \<open>put\<close> stores are full digests (64 characters) of a serialised
  \<^verbatim>\<open>TaskDefinition(id=dep_id, description="")\<close>, while \<open>invalidate_dependents\<close> searches for the
  first 16 characters of the digest of the bare id. No stored key has that length, so for every
  id \<open>invalidate_dependents\<close> removes nothing and returns 0: the entry \<open>put\<close> stored for a
  dependent task is still in the memory tier afterwards.
\<close>

theorem invalidate_dependents_removes_nothing:
  assumes "\<And>s. length (sha256_hex s) = 64"
    and "full_dependency_keys (memory_cache c)"
    and "strategy (config c) = MEMORY \<or> strategy (config c) = HYBRID"
    and "put sha256_hex now1 now2 now3 task r deps c = Inr c'"
  shows "\<exists>k ks. generate sha256_hex task deps (include_dependencies (config c)) = Inr k
       \<and> put_dep_keys sha256_hex task deps (include_dependencies (config c)) = Inr ks
       \<and> map_option (\<lambda>e. (entry_result e, dependency_keys e)) (map_of (memory_cache c') k)
           = Some (r, ks)
       \<and> invalidate_dependents sha256_hex i c' = (0, c')"
proof -
  have ne: "strategy (config c) \<noteq> NONE" using assms(3) by auto
  obtain k where k: "generate sha256_hex task deps (include_dependencies (config c)) = Inr k"
  proof (cases "generate sha256_hex task deps (include_dependencies (config c))")
    case (Inl e)
    with ne assms(4) show ?thesis by (simp add: put_def)
  next
    case (Inr k)
    then show ?thesis by (rule that)
  qed
  obtain ks where ks: "put_dep_keys sha256_hex task deps (include_dependencies (config c)) = Inr ks"
  proof (cases "put_dep_keys sha256_hex task deps (include_dependencies (config c))")
    case (Inl e)
    with ne k assms(4) show ?thesis by (simp add: put_def)
  next
    case (Inr ks)
    then show ?thesis by (rule that)
  qed
  let ?c1 = "store_in_memory now1 now2 k r ks c"
  have l: "list_all (\<lambda>d. length d = 64) ks"
    using assms(1) ks by (rule put_dep_keys_length)
  have "c' = (if strategy (config c) = DISK \<or> strategy (config c) = HYBRID
              then save_to_disk now3 k r ?c1 else ?c1)"
    using assms(3,4) ne k ks by (auto simp: put_def Let_def)
  then have mem: "memory_cache c' = memory_cache ?c1"
    by (simp add: save_to_disk_def)
  from full_store_in_memory [OF assms(2) l, of now1 now2 k r]
  have f: "full_dependency_keys (memory_cache c')"
    and e: "map_option (\<lambda>e. (entry_result e, dependency_keys e)) (map_of (memory_cache c') k)
           = Some (r, ks)"
    unfolding mem by simp_all
  from invalidate_dependents_nothing [OF assms(1) f]
  have "invalidate_dependents sha256_hex i c' = (0, c')" .
  with k ks e show ?thesis by blast
qed

theorem invalidate_dependents_removes_nothing_witness:
  "(case put digest0 1 1 1 task_dependent result_B (Some [(''A'', result_A)]) cache0 of
      Inr c' \<Rightarrow>
        fst (invalidate_dependents digest0 ''A'' c') = 0
        \<and> length (memory_cache (snd (invalidate_dependents digest0 ''A'' c'))) = 1
        \<and> map (\<lambda>kv. length (dependency_keys (snd kv))) (memory_cache c') = [1]
    | Inl e \<Rightarrow> False)"
proof -
  have run: "(case put digest0 1 1 1 task_dependent result_B (Some [(''A'', result_A)]) cache0 of
      Inr c' \<Rightarrow> length (memory_cache c') = 1
                \<and> map (\<lambda>kv. length (dependency_keys (snd kv))) (memory_cache c') = [1]
    | Inl e \<Rightarrow> False)"
    by code_simp
  then obtain c' where c': "put digest0 1 1 1 task_dependent result_B (Some [(''A'', result_A)]) cache0 = Inr c'"
    and n: "length (memory_cache c') = 1"
      "map (\<lambda>kv. length (dependency_keys (snd kv))) (memory_cache c') = [1]"
    by (cases "put digest0 1 1 1 task_dependent result_B (Some [(''A'', result_A)]) cache0") auto
  have h: "\<And>s. length (digest0 s) = 64" by (simp add: digest0_def)
  have f: "full_dependency_keys (memory_cache cache0)"
    by (simp add: cache0_def full_dependency_keys_def)
  have s: "strategy (config cache0) = MEMORY \<or> strategy (config cache0) = HYBRID"
    by (simp add: cache0_def)
  from invalidate_dependents_removes_nothing [OF h f s c', of "''A''"]
  have "invalidate_dependents digest0 ''A'' c' = (0, c')" by blast
  with c' n show ?thesis by simp
qed

end
